theory Spec2Isabelle
  imports Complex_Main "HOL-Library.AList"
begin

section \<open>Strings\<close>

text \<open>
  A Python \<open>str\<close> is modelled as a \<open>string\<close> whose characters are the code points
  below 256. The regular expressions of \<open>bot.py\<close> only mention ASCII characters, so they
  act on such a string character by character.
\<close>

definition backslash :: char where
  "backslash = CHR 0x5C"

definition backtick :: char where
  "backtick = CHR 0x60"

definition newline :: char where
  "newline = CHR 0x0A"

text \<open>\<open>chars = r'_*[]()~`>#+-=|{}.!'\<close> of \<open>escape_markdown_v2\<close>.\<close>

definition markdown_chars :: string where
  "markdown_chars = ''_*[]()~'' @ [backtick] @ ''>#+-=|{}.!''"

text \<open>
  \<open>re.sub(r'([%s])' % re.escape(chars), r'\\\1', text)\<close>: the pattern is a character
  class, so the substitution scans the text and puts a backslash before each character of
  the class.
\<close>

fun escape_markdown_v2 :: "string \<Rightarrow> string" where
  "escape_markdown_v2 [] = []"
| "escape_markdown_v2 (c # cs) =
     (if c \<in> set markdown_chars then backslash # c # escape_markdown_v2 cs
      else c # escape_markdown_v2 cs)"

text \<open>The class \<open>[a-zA-Z0-9_]\<close> of \<open>escape_telegram_nicknames\<close>.\<close>

definition is_nick_char :: "char \<Rightarrow> bool" where
  "is_nick_char c \<longleftrightarrow>
     c \<in> set (''abcdefghijklmnopqrstuvwxyz'' @ ''ABCDEFGHIJKLMNOPQRSTUVWXYZ'' @ ''0123456789_'')"

text \<open>\<open>m.group(1).replace('_', '\\_')\<close>.\<close>

definition escape_underscores :: "string \<Rightarrow> string" where
  "escape_underscores g = concat (map (\<lambda>d. if d = CHR ''_'' then [backslash, d] else [d]) g)"

text \<open>
  \<open>re.sub(r'@([a-zA-Z0-9_]+)', lambda m: '@' + m.group(1).replace('_', '\\_'), text)\<close>:
  at an \<open>@\<close> followed by at least one character of the class, the greedy group is the
  longest run of such characters; scanning resumes after the group.
\<close>

function escape_telegram_nicknames :: "string \<Rightarrow> string" where
  "escape_telegram_nicknames [] = []"
| "escape_telegram_nicknames (c # cs) =
     (if c = CHR ''@'' \<and> takeWhile is_nick_char cs \<noteq> []
      then c # escape_underscores (takeWhile is_nick_char cs)
             @ escape_telegram_nicknames (dropWhile is_nick_char cs)
      else c # escape_telegram_nicknames cs)"
  by pat_completeness auto
termination
  by (relation "measure length") (auto simp: less_Suc_eq_le length_dropWhile_le)

text \<open>
  \<open>str.isspace\<close> on the code points below 256, and \<open>str.strip()\<close>, which removes
  whitespace at both ends.
\<close>

definition is_space :: "char \<Rightarrow> bool" where
  "is_space c \<longleftrightarrow>
     c \<in> set ([CHR 0x09, CHR 0x0A, CHR 0x0B, CHR 0x0C, CHR 0x0D, CHR 0x1C, CHR 0x1D,
               CHR 0x1E, CHR 0x1F, CHR 0x20, CHR 0x85, CHR 0xA0])"

definition strip :: "string \<Rightarrow> string" where
  "strip s = rev (dropWhile is_space (rev (dropWhile is_space s)))"

text \<open>\<open>sep.join(parts)\<close>.\<close>

fun join :: "string \<Rightarrow> string list \<Rightarrow> string" where
  "join sep [] = []"
| "join sep [p] = p"
| "join sep (p # q # ps) = p @ sep @ join sep (q # ps)"

section \<open>Markup renderer\<close>

text \<open>
  One item of a Notion \<open>rich_text\<close> array: \<open>plain_text\<close>, \<open>href\<close> (absent or null is
  \<open>None\<close>) and the five flags read from \<open>annotations\<close>.
\<close>

record text_run =
  plain_text :: string
  href :: "string option"
  bold :: bool
  italic :: bool
  strikethrough :: bool
  code :: bool
  underline :: bool

text \<open>\<open>escape_markdown_v2(text) if escape else text\<close>.\<close>

definition run_body :: "bool \<Rightarrow> text_run \<Rightarrow> string" where
  "run_body escape seg =
     (if escape then escape_markdown_v2 (plain_text seg) else plain_text seg)"

text \<open>The \<open>if\<close>/\<open>elif\<close> chain of \<open>_parse_rich_text\<close> (lines 154 to 165).\<close>

definition style_text :: "bool \<Rightarrow> text_run \<Rightarrow> string" where
  "style_text escape seg =
     (if bold seg then ''*'' @ run_body escape seg @ ''*''
      else if italic seg then ''_'' @ run_body escape seg @ ''_''
      else if strikethrough seg then ''~'' @ run_body escape seg @ ''~''
      else if code seg then [backtick] @ run_body escape seg @ [backtick]
      else if underline seg then ''__'' @ run_body escape seg @ ''__''
      else run_body escape seg)"

text \<open>\<open>if href: text = f"[{text}]({href})"\<close>; an empty \<open>href\<close> is falsy.\<close>

definition wrap_link :: "string option \<Rightarrow> string \<Rightarrow> string" where
  "wrap_link h text =
     (case h of
        None \<Rightarrow> text
      | Some url \<Rightarrow> if url = [] then text else ''['' @ text @ '']('' @ url @ '')'')"

text \<open>The body of the loop of \<open>_parse_rich_text\<close>, for one segment.\<close>

definition parse_segment :: "bool \<Rightarrow> text_run \<Rightarrow> string" where
  "parse_segment escape seg =
     wrap_link (href seg)
       (if escape then escape_telegram_nicknames (style_text escape seg)
        else style_text escape seg)"

definition parse_rich_text :: "text_run list \<Rightarrow> bool \<Rightarrow> string" where
  "parse_rich_text rich_text escape = concat (map (parse_segment escape) rich_text)"

text \<open>
  A Notion block, with the payload \<open>parse_block\<close> reads. The children of a toggle and the
  rows of a table are fetched by \<open>client.blocks.children.list\<close>; the answer is part of
  the block here, \<open>None\<close> when the request raises. The icon of a callout is null
  (\<open>None\<close>), or an object with or without an \<open>emoji\<close> key.
\<close>

datatype block =
    Paragraph "text_run list"
  | Heading "text_run list"
  | BulletedListItem "text_run list"
  | NumberedListItem "text_run list"
  | Toggle "text_run list" "block list option"
  | Quote "text_run list"
  | Callout "string option option" "text_run list"
  | Code "text_run list" string
  | Divider
  | Image string
  | Table "block list option"
  | TableRow "text_run list list"
  | Unsupported

datatype exn = KeyError | IndexError | OverflowError | ValueError | APIError

text \<open>
  \<open>_parse_table_row\<close>: \<open>row_block["table_row"]\<close> raises on a block that is not a table
  row.
\<close>

fun parse_table_row :: "block \<Rightarrow> exn + string" where
  "parse_table_row (TableRow cells) =
     Inr (join '' | '' (map (\<lambda>cell. parse_rich_text cell False) cells))"
| "parse_table_row _ = Inl KeyError"

text \<open>A list comprehension whose element expression may raise: the first exception wins.\<close>

fun comprehension :: "('a \<Rightarrow> exn + 'b) \<Rightarrow> 'a list \<Rightarrow> exn + 'b list" where
  "comprehension f [] = Inr []"
| "comprehension f (x # xs) =
     (case f x of
        Inl e \<Rightarrow> Inl e
      | Inr y \<Rightarrow> (case comprehension f xs of Inl e \<Rightarrow> Inl e | Inr ys \<Rightarrow> Inr (y # ys)))"

text \<open>
  \<open>_parse_table\<close>: the rows are fetched and rendered, \<open>table_text\<close> is built, and the
  function returns the literal \<open>f"``````\n\n"\<close>, which has no replacement field.
\<close>

definition parse_table :: "block list option \<Rightarrow> exn + string" where
  "parse_table fetched =
     (case fetched of
        None \<Rightarrow> Inl APIError
      | Some rows \<Rightarrow>
          (case comprehension parse_table_row rows of
             Inl e \<Rightarrow> Inl e
           | Inr lines \<Rightarrow>
               (let table_text = join [newline] lines
                in Inr (replicate 6 backtick @ [newline, newline]))))"

text \<open>
  \<open>parse_block\<close>. Its \<open>except Exception\<close> turns every exception into the empty
  fragment.
\<close>

fun parse_block :: "block \<Rightarrow> string" where
  "parse_block (Paragraph rt) = parse_rich_text rt True @ [newline, newline]"
| "parse_block (Heading rt) = ''*'' @ parse_rich_text rt True @ ''*'' @ [newline, newline]"
| "parse_block (BulletedListItem rt) =
     [backslash] @ ''- '' @ parse_rich_text rt True @ [newline]"
| "parse_block (NumberedListItem rt) =
     ''1'' @ [backslash] @ ''. '' @ parse_rich_text rt True @ [newline]"
| "parse_block (Toggle rt fetched) =
     (case fetched of
        None \<Rightarrow> []
      | Some children \<Rightarrow>
          (let summary = parse_rich_text rt True;
               content = strip (concat (map parse_block children))
           in if content \<noteq> []
              then ''*'' @ summary @ ''*'' @ [newline] @ ''||'' @ content @ ''||''
                     @ [newline, newline]
              else ''||'' @ summary @ ''||'' @ [newline, newline]))"
| "parse_block (Quote rt) = ''> '' @ parse_rich_text rt True @ [newline, newline]"
| "parse_block (Callout icon rt) =
     (case icon of
        None \<Rightarrow> []
      | Some emoji \<Rightarrow>
          (case emoji of None \<Rightarrow> [] | Some e \<Rightarrow> e) @ '' '' @ parse_rich_text rt True
            @ [newline, newline])"
| "parse_block (Code rt lang) = replicate 6 backtick @ [newline, newline]"
| "parse_block Divider = ''------'' @ [newline, newline]"
| "parse_block (Image url) = ''![]('' @ url @ '')'' @ [newline, newline]"
| "parse_block (Table fetched) =
     (case parse_table fetched of Inl e \<Rightarrow> [] | Inr text \<Rightarrow> text)"
| "parse_block (TableRow cells) =
     (case parse_table_row (TableRow cells) of Inl e \<Rightarrow> [] | Inr text \<Rightarrow> text)"
| "parse_block Unsupported = []"

text \<open>
  A Python float as \<open>int(x)\<close> and \<open>not x\<close> see it: a finite value, an infinity or a
  NaN.
\<close>

datatype pyfloat = Finite rat | Inf | NaN

text \<open>A value decoded from JSON; for an array or an object only its truthiness is kept.\<close>

datatype json = JNull | JBool bool | JInt int | JFloat pyfloat | JStr string | JContainer bool

text \<open>
  A page as \<open>client.pages.retrieve\<close> returns it: \<open>page["id"]\<close>, the array under
  \<open>properties.title.title\<close> (\<open>None\<close> when one of the keys is missing; each item is its
  \<open>plain_text\<close>, \<open>None\<close> when the item has none), \<open>last_edited_time\<close>, and the answer
  of \<open>client.blocks.children.list\<close> for the page (\<open>None\<close> when it raises).
\<close>

record page =
  pid :: string
  title_items :: "string option list option"
  last_edited_time :: json
  children :: "block list option"

text \<open>
  \<open>page.get("properties", {}).get("title", {}).get("title", [{}])[0].get("plain_text", "")\<close>:
  indexing an empty title array raises.
\<close>

definition page_title :: "page \<Rightarrow> exn + string" where
  "page_title p =
     (case title_items p of
        None \<Rightarrow> Inr []
      | Some [] \<Rightarrow> Inl IndexError
      | Some (item # _) \<Rightarrow> (case item of None \<Rightarrow> Inr [] | Some text \<Rightarrow> Inr text))"

text \<open>
  \<open>get_page_content\<close> reads the title of the page again, lists its blocks, renders them
  and strips the concatenation. Any exception gives the empty string.
\<close>

definition get_page_content :: "page \<Rightarrow> string" where
  "get_page_content p =
     (case page_title p of
        Inl e \<Rightarrow> []
      | Inr title \<Rightarrow>
          (case children p of
             None \<Rightarrow> []
           | Some blocks \<Rightarrow>
               strip (concat (filter (\<lambda>parsed. parsed \<noteq> []) (map parse_block blocks)))))"

section \<open>Identifiers, links and timestamps\<close>

definition SKIP_TITLE_PREFIXES :: "string list" where
  "SKIP_TITLE_PREFIXES = [''[DRAFT]'', ''[TG_SYNC]'']"

text \<open>\<open>title.strip().startswith(tuple(SKIP_TITLE_PREFIXES))\<close>.\<close>

definition skipped_title :: "string \<Rightarrow> bool" where
  "skipped_title title \<longleftrightarrow>
     (\<exists>prefix \<in> set SKIP_TITLE_PREFIXES. take (length prefix) (strip title) = prefix)"

text \<open>\<open>s.replace(old, new)\<close> for a non-empty \<open>old\<close>: leftmost occurrences, not overlapping.\<close>

function replace :: "string \<Rightarrow> string \<Rightarrow> string \<Rightarrow> string" where
  "replace old new [] = []"
| "replace old new (c # cs) =
     (if old \<noteq> [] \<and> take (length old) (c # cs) = old
      then new @ replace old new (drop (length old) (c # cs))
      else c # replace old new cs)"
  by pat_completeness auto
termination
  by (relation "measure (\<lambda>(old, new, s). length s)") auto

definition normalize_page_id :: "string \<Rightarrow> string" where
  "normalize_page_id page_id = replace ''-'' [] page_id"

text \<open>The class \<open>[0-9a-f]\<close> and \<open>re.search(r'([0-9a-f]{32})', url)\<close>: the leftmost match.\<close>

definition is_hex :: "char \<Rightarrow> bool" where
  "is_hex c \<longleftrightarrow> c \<in> set ''0123456789abcdef''"

fun search_hex32 :: "string \<Rightarrow> string option" where
  "search_hex32 [] = None"
| "search_hex32 (c # cs) =
     (if 32 \<le> length (takeWhile is_hex (c # cs)) then Some (take 32 (c # cs))
      else search_hex32 cs)"

text \<open>
  \<open>re.search(r'/(\d+)$', tg_url)\<close>: the leftmost slash followed by digits up to the end
  of the string, or up to a final newline.
\<close>

definition is_digit :: "char \<Rightarrow> bool" where
  "is_digit c \<longleftrightarrow> c \<in> set ''0123456789''"

fun search_message_id :: "string \<Rightarrow> string option" where
  "search_message_id [] = None"
| "search_message_id (c # cs) =
     (if c = CHR ''/'' \<and> takeWhile is_digit cs \<noteq> []
         \<and> (dropWhile is_digit cs = [] \<or> dropWhile is_digit cs = [newline])
      then Some (takeWhile is_digit cs)
      else search_message_id cs)"

text \<open>\<open>int(s)\<close> on a string of decimal digits, and \<open>str(i)\<close> on an integer.\<close>

definition digit_value :: "char \<Rightarrow> int" where
  "digit_value c = int (of_char c) - 48"

definition int_of_digits :: "string \<Rightarrow> int" where
  "int_of_digits ds = foldl (\<lambda>acc c. 10 * acc + digit_value c) 0 ds"

definition digit_char :: "nat \<Rightarrow> char" where
  "digit_char d = ''0123456789'' ! d"

fun str_nat :: "nat \<Rightarrow> string" where
  "str_nat n = (if n < 10 then [digit_char n] else str_nat (n div 10) @ [digit_char (n mod 10)])"

declare str_nat.simps [simp del]

definition str_int :: "int \<Rightarrow> string" where
  "str_int i = (if i < 0 then ''-'' @ str_nat (nat (- i)) else str_nat (nat i))"

text \<open>
  \<open>f"https://t.me/c/{TELEGRAM_CHAT_ID.replace('-100', '')}/{tg_post_id}" if tg_post_id
  else ""\<close>. A post identifier is an integer or the empty string (\<open>None\<close> here); the empty
  string and 0 are falsy.
\<close>

definition tg_url_of :: "string \<Rightarrow> int option \<Rightarrow> string" where
  "tg_url_of chat_id tg_post_id =
     (case tg_post_id of
        None \<Rightarrow> []
      | Some n \<Rightarrow>
          if n \<noteq> 0 then ''https://t.me/c/'' @ replace ''-100'' [] chat_id @ ''/'' @ str_int n
          else [])"

definition notion_url_of :: "string \<Rightarrow> string" where
  "notion_url_of page_id = ''https://www.notion.so/'' @ page_id"

text \<open>\<open>int(x)\<close> on a float truncates towards zero and raises on an infinity or a NaN.\<close>

definition int_of_float :: "pyfloat \<Rightarrow> exn + int" where
  "int_of_float x =
     (case x of
        Finite q \<Rightarrow> Inr (if 0 \<le> q then \<lfloor>q\<rfloor> else \<lceil>q\<rceil>)
      | Inf \<Rightarrow> Inl OverflowError
      | NaN \<Rightarrow> Inl ValueError)"

text \<open>\<open>not dt\<close>.\<close>

definition falsy :: "json \<Rightarrow> bool" where
  "falsy dt \<longleftrightarrow>
     (case dt of
        JNull \<Rightarrow> True
      | JBool b \<Rightarrow> \<not> b
      | JInt n \<Rightarrow> n = 0
      | JFloat x \<Rightarrow> x = Finite 0
      | JStr s \<Rightarrow> s = []
      | JContainer nonempty \<Rightarrow> \<not> nonempty)"

text \<open>
  \<open>_to_timestamp\<close>. The parameter \<open>date_parser\<close> stands for
  \<open>int(date_parser.parse(dt).timestamp())\<close> on a string, \<open>None\<close> when it raises;
  \<open>date_parser.parse\<close> raises on a value that is not a string. The conversion
  \<open>int(dt)\<close> of a number is outside the \<open>try\<close>.
\<close>

definition to_timestamp :: "(string \<Rightarrow> int option) \<Rightarrow> json \<Rightarrow> exn + int" where
  "to_timestamp date_parser dt =
     (if falsy dt then Inr 0
      else case dt of
        JBool b \<Rightarrow> Inr (if b then 1 else 0)
      | JInt n \<Rightarrow> Inr n
      | JFloat x \<Rightarrow> int_of_float x
      | JStr s \<Rightarrow> (case date_parser s of None \<Rightarrow> Inr 0 | Some t \<Rightarrow> Inr t)
      | _ \<Rightarrow> Inr 0)"

section \<open>Mapping store\<close>

text \<open>
  A row of the sync database, with the properties the program reads and writes: the first
  item of the title property (its \<open>plain_text\<close> and \<open>href\<close>; \<open>None\<close> when the title is
  empty), the \<open>url\<close> of the \<open>Telegram\<close> property, the \<open>start\<close> of the date property,
  the text of \<open>PageTitle\<close>, and the archived flag. The database is the list of its rows;
  the identifier of a row is its position. The store answers every request, returns what
  was written, and \<open>databases.query\<close> returns all the rows that are not archived, in
  order, in one answer.
\<close>

record db_row =
  row_title :: "(string \<times> string option) option"
  row_telegram :: "string option"
  row_date :: json
  row_page_title :: string
  archived :: bool

definition query :: "db_row list \<Rightarrow> (nat \<times> db_row) list" where
  "query database = filter (\<lambda>(row_id, row). \<not> archived row) (enumerate 0 database)"

text \<open>The entry of the in-memory mapping \<open>self.pinned\<close> for one page.\<close>

record pin =
  pin_message_id :: "int option"
  pin_last_edited :: json
  pin_title :: "string option"

text \<open>
  The page identifier of a row: the link of the title item, searched for 32 hexadecimal
  digits; the empty string when there is none.
\<close>

definition row_page_id :: "db_row \<Rightarrow> string" where
  "row_page_id row =
     (case row_title row of
        None \<Rightarrow> []
      | Some (title, link) \<Rightarrow>
          (case link of
             None \<Rightarrow> []
           | Some notion_url \<Rightarrow>
               (case search_hex32 notion_url of None \<Rightarrow> [] | Some page_id \<Rightarrow> page_id)))"

definition row_title_text :: "db_row \<Rightarrow> string" where
  "row_title_text row = (case row_title row of None \<Rightarrow> [] | Some (title, link) \<Rightarrow> title)"

text \<open>The first loop of \<open>update_sync_database\<close>: \<open>existing_rows\<close>, keyed by page identifier.\<close>

definition existing_rows :: "db_row list \<Rightarrow> (string \<times> nat \<times> string) list" where
  "existing_rows database =
     foldl (\<lambda>rows (row_id, row).
              if row_page_id row \<noteq> []
              then AList.update (row_page_id row) (row_id, row_title_text row) rows
              else rows)
       [] (query database)"

text \<open>The page identifier \<open>update_sync_database\<close> extracts from an entry of \<open>sync_data\<close>.\<close>

definition data_page_id :: "string \<times> string \<times> string \<times> json \<Rightarrow> string" where
  "data_page_id entry =
     (case entry of (title, notion_url, tg_url, dt) \<Rightarrow>
        (case search_hex32 notion_url of None \<Rightarrow> [] | Some page_id \<Rightarrow> page_id))"

text \<open>The properties written for an entry, as the row that is read back.\<close>

definition props_row :: "string \<times> string \<times> string \<times> json \<Rightarrow> db_row" where
  "props_row entry =
     (case entry of (title, notion_url, tg_url, dt) \<Rightarrow>
        \<lparr>row_title = Some (title, Some notion_url),
         row_telegram = (if tg_url \<noteq> [] then Some tg_url else None),
         row_date = dt,
         row_page_title = title,
         archived = False\<rparr>)"

text \<open>
  The second loop: \<open>pages.update\<close> of the existing row of the page, or \<open>pages.create\<close>.
  \<open>existing_rows\<close> is not refreshed inside the loop.
\<close>

definition upsert :: "(string \<times> nat \<times> string) list \<Rightarrow> db_row list
    \<Rightarrow> string \<times> string \<times> string \<times> json \<Rightarrow> db_row list" where
  "upsert existing database entry =
     (case map_of existing (data_page_id entry) of
        Some (row_id, title) \<Rightarrow>
          database[row_id := (props_row entry)\<lparr>archived := archived (database ! row_id)\<rparr>]
      | None \<Rightarrow> database @ [props_row entry])"

text \<open>The third loop: rows of \<open>existing_rows\<close> whose page is not in the data are archived.\<close>

definition archived_page_ids :: "(string \<times> string \<times> string \<times> json) list \<Rightarrow> db_row list
    \<Rightarrow> string list" where
  "archived_page_ids sync_data database =
     filter (\<lambda>page_id. page_id \<notin> data_page_id ` set sync_data)
       (map fst (existing_rows database))"

definition archive :: "(string \<times> string \<times> string \<times> json) list
    \<Rightarrow> (string \<times> nat \<times> string) list \<Rightarrow> db_row list \<Rightarrow> db_row list" where
  "archive sync_data existing database =
     foldl (\<lambda>d (page_id, row_id, title).
              if page_id \<notin> data_page_id ` set sync_data
              then d[row_id := (d ! row_id)\<lparr>archived := True\<rparr>]
              else d)
       database existing"

definition update_sync_database :: "(string \<times> string \<times> string \<times> json) list \<Rightarrow> db_row list
    \<Rightarrow> db_row list" where
  "update_sync_database sync_data database =
     (if sync_data = [] then database
      else let existing = existing_rows database
           in archive sync_data existing (foldl (upsert existing) database sync_data))"

text \<open>
  \<open>get_sync_db_mapping\<close>: the message identifier is parsed from the end of the Telegram
  link; a row without a page identifier is left out.
\<close>

definition row_message_id :: "db_row \<Rightarrow> int option" where
  "row_message_id row =
     (case row_telegram row of
        None \<Rightarrow> None
      | Some tg_url \<Rightarrow>
          (case search_message_id tg_url of
             None \<Rightarrow> None
           | Some digits \<Rightarrow> Some (int_of_digits digits)))"

definition get_sync_db_mapping :: "db_row list \<Rightarrow> (string \<times> pin) list" where
  "get_sync_db_mapping database =
     foldl (\<lambda>mapping (row_id, row).
              if row_page_id row \<noteq> []
              then AList.update (row_page_id row)
                     \<lparr>pin_message_id = row_message_id row,
                      pin_last_edited = row_date row,
                      pin_title = Some (row_title_text row)\<rparr> mapping
              else mapping)
       [] (query database)"

section \<open>Sync reconciler\<close>

text \<open>
  A call of a method of \<open>telegram.Bot\<close>. The methods are coroutine functions (\<open>sync\<close>
  and \<open>create_post\<close> await them): a call builds a coroutine, and the request is sent
  when the coroutine is awaited.
\<close>

datatype tg_call =
    SendMessage string
  | EditMessageText int string
  | PinChatMessage int
  | UnpinChatMessage "int option"
  | DeleteMessage "int option"

text \<open>
  The messaging service: given the requests sent so far and the next request, \<open>None\<close>
  when the request raises, otherwise \<open>Some n\<close>, where \<open>n\<close> is the \<open>message_id\<close> of the
  returned message for \<open>send_message\<close> (and is not read for the other requests).
\<close>

type_synonym telegram = "tg_call list \<Rightarrow> tg_call \<Rightarrow> int option"

text \<open>
  The state of \<open>TelegramBot\<close> and of one pass: the mapping \<open>pinned\<close> (a dictionary, in
  insertion order), the requests sent to the messaging service, the coroutines that were
  built and never awaited, the sync database, and the two accumulators of \<open>sync\<close>.
\<close>

record state =
  pinned :: "(string \<times> pin) list"
  requests :: "tg_call list"
  unawaited :: "tg_call list"
  db :: "db_row list"
  current_page_ids :: "string set"
  sync_data :: "(string \<times> string \<times> string \<times> json) list"

text \<open>\<open>await self.bot.method(...)\<close>: the request is sent and answered.\<close>

definition await :: "telegram \<Rightarrow> tg_call \<Rightarrow> state \<Rightarrow> int option \<times> state" where
  "await tg call s = (tg (requests s) call, s\<lparr>requests := requests s @ [call]\<rparr>)"

text \<open>
  \<open>create_post\<close>. The \<open>except\<close> branch logs and writes the text to a file; the write
  is taken to succeed, and the model keeps no trace of either.
\<close>

definition create_post :: "telegram \<Rightarrow> string \<Rightarrow> string \<Rightarrow> json \<Rightarrow> state \<Rightarrow> state" where
  "create_post tg page_id text edited s =
     (case await tg (SendMessage text) s of
        (None, s1) \<Rightarrow> s1
      | (Some msg_id, s1) \<Rightarrow>
          (case await tg (PinChatMessage msg_id) s1 of
             (None, s2) \<Rightarrow> s2
           | (Some ok, s2) \<Rightarrow>
               s2\<lparr>pinned := AList.update page_id
                    \<lparr>pin_message_id = Some msg_id, pin_last_edited = edited, pin_title = None\<rparr>
                    (pinned s2)\<rparr>))"

text \<open>The \<open>try\<close> of lines 346 to 364: edit and pin again, or fall back to \<open>create_post\<close>.\<close>

definition edit_post :: "telegram \<Rightarrow> string \<Rightarrow> int \<Rightarrow> string \<Rightarrow> json \<Rightarrow> state \<Rightarrow> state" where
  "edit_post tg page_id tg_post_id text edited s =
     (case await tg (EditMessageText tg_post_id text) s of
        (None, s1) \<Rightarrow> create_post tg page_id text edited s1
      | (Some ok, s1) \<Rightarrow>
          (case await tg (PinChatMessage tg_post_id) s1 of
             (None, s2) \<Rightarrow> create_post tg page_id text edited s2
           | (Some ok', s2) \<Rightarrow>
               s2\<lparr>pinned := AList.update page_id
                    \<lparr>pin_message_id = Some tg_post_id, pin_last_edited = edited,
                     pin_title = None\<rparr>
                    (pinned s2)\<rparr>))"

text \<open>\<open>self.pinned.get(page_id, {}).get("message_id", "")\<close> and \<open>....get("last_edited")\<close>.\<close>

definition pinned_message_id :: "state \<Rightarrow> string \<Rightarrow> int option" where
  "pinned_message_id s page_id =
     (case map_of (pinned s) page_id of None \<Rightarrow> None | Some record \<Rightarrow> pin_message_id record)"

definition pinned_last_edited :: "state \<Rightarrow> string \<Rightarrow> json" where
  "pinned_last_edited s page_id =
     (case map_of (pinned s) page_id of None \<Rightarrow> JNull | Some record \<Rightarrow> pin_last_edited record)"

text \<open>
  \<open>f"*{escape_markdown_v2(title)}*\n\n{content}" if content else
  f"*{escape_markdown_v2(title)}*"\<close>.
\<close>

definition page_message :: "string \<Rightarrow> string \<Rightarrow> string" where
  "page_message title content =
     (if content \<noteq> []
      then ''*'' @ escape_markdown_v2 title @ ''*'' @ [newline, newline] @ content
      else ''*'' @ escape_markdown_v2 title @ ''*'')"

text \<open>
  The body of the loop of \<open>sync\<close> for one page. An exception raised inside is caught by
  the \<open>except\<close> of line 373: the page is left out of \<open>sync_data\<close>, and what was done
  before the exception stays.
\<close>

definition sync_page :: "string \<Rightarrow> (string \<Rightarrow> int option) \<Rightarrow> telegram \<Rightarrow> page \<Rightarrow> state \<Rightarrow> state"
  where
  "sync_page chat_id date_parser tg p s0 =
     (let page_id = normalize_page_id (pid p);
          s = s0\<lparr>current_page_ids := insert page_id (current_page_ids s0)\<rparr>
      in case page_title p of
           Inl e \<Rightarrow> s
         | Inr title \<Rightarrow>
             if skipped_title title then s
             else
               let edited = last_edited_time p;
                   tg_post_id = pinned_message_id s page_id;
                   tg_url = tg_url_of chat_id tg_post_id;
                   prev_last_edited = pinned_last_edited s page_id
               in case to_timestamp date_parser edited of
                    Inl e \<Rightarrow> s
                  | Inr last_edited_ts \<Rightarrow>
                      (case to_timestamp date_parser prev_last_edited of
                         Inl e \<Rightarrow> s
                       | Inr prev_last_edited_ts \<Rightarrow>
                           if last_edited_ts \<noteq> prev_last_edited_ts
                           then
                             let content = get_page_content p;
                                 message = page_message title content;
                                 s1 = (case tg_post_id of
                                         None \<Rightarrow> create_post tg page_id message edited s
                                       | Some n \<Rightarrow>
                                           if n \<noteq> 0 then edit_post tg page_id n message edited s
                                           else create_post tg page_id message edited s);
                                 tg_url1 = tg_url_of chat_id (pinned_message_id s1 page_id)
                             in s1\<lparr>sync_data := sync_data s1
                                    @ [(title, notion_url_of page_id, tg_url1, edited)]\<rparr>
                           else s\<lparr>sync_data := sync_data s
                                    @ [(title, notion_url_of page_id, tg_url, edited)]\<rparr>))"

text \<open>
  \<open>cleanup_posts\<close> is a plain function: it calls \<open>unpin_chat_message\<close> and
  \<open>delete_message\<close> without \<open>await\<close>, so each call builds a coroutine that is dropped.
  No request is sent, neither \<open>except\<close> branch around the calls can run, and the entry
  is deleted from \<open>pinned\<close>.
\<close>

fun cleanup_loop :: "string list \<Rightarrow> string set \<Rightarrow> state \<Rightarrow> state" where
  "cleanup_loop [] current_ids s = s"
| "cleanup_loop (page_id # keys) current_ids s =
     cleanup_loop keys current_ids
       (if page_id \<notin> current_ids
        then (case map_of (pinned s) page_id of
                None \<Rightarrow> s
              | Some record \<Rightarrow>
                  s\<lparr>unawaited := unawaited s
                       @ [UnpinChatMessage (pin_message_id record),
                          DeleteMessage (pin_message_id record)],
                    pinned := AList.delete page_id (pinned s)\<rparr>)
        else s)"

definition cleanup_posts :: "string set \<Rightarrow> state \<Rightarrow> state" where
  "cleanup_posts current_ids s = cleanup_loop (map fst (pinned s)) current_ids s"

text \<open>The loop of \<open>sync\<close> over the pages \<open>get_first_level_pages\<close> returned.\<close>

definition sync_loop :: "string \<Rightarrow> (string \<Rightarrow> int option) \<Rightarrow> telegram \<Rightarrow> page list \<Rightarrow> state
    \<Rightarrow> state" where
  "sync_loop chat_id date_parser tg pages s0 =
     foldl (\<lambda>s p. sync_page chat_id date_parser tg p s)
       (s0\<lparr>current_page_ids := {}, sync_data := []\<rparr>) pages"

text \<open>
  \<open>sync\<close>, one pass: the loop, the cleanup, and, when \<open>sync_data\<close> is not empty, the
  update of the sync database followed by the reload of \<open>pinned\<close> from it.
\<close>

definition sync :: "string \<Rightarrow> (string \<Rightarrow> int option) \<Rightarrow> telegram \<Rightarrow> page list \<Rightarrow> state \<Rightarrow> state"
  where
  "sync chat_id date_parser tg pages s0 =
     (let s1 = sync_loop chat_id date_parser tg pages s0;
          s2 = cleanup_posts (current_page_ids s1) s1
      in if sync_data s2 \<noteq> []
         then let database = update_sync_database (sync_data s2) (db s2)
              in s2\<lparr>db := database, pinned := get_sync_db_mapping database\<rparr>
         else s2)"

section \<open>The style precedence as the specification words it\<close>

text \<open>
  The specification: a run is wrapped with the single highest-priority style marker found,
  in the order bold, italic, strikethrough, code, underline, and with none when no flag is
  set.
\<close>

definition style_marker :: "text_run \<Rightarrow> string" where
  "style_marker seg =
     (case filter snd
             [(''*'', bold seg), (''_'', italic seg), (''~'', strikethrough seg),
              ([backtick], code seg), (''__'', underline seg)] of
        [] \<Rightarrow> []
      | (marker, flag) # lower \<Rightarrow> marker)"

text \<open>
  The specification: a source page identifier is normalized, hyphen-free, 32 characters of
  lowercase hexadecimal.
\<close>

definition valid_id :: "string \<Rightarrow> bool" where
  "valid_id page_id \<longleftrightarrow> length page_id = 32 \<and> list_all is_hex page_id"

section \<open>Notions used in the proofs\<close>

text \<open>
  The row \<open>i\<close> is the last row of the database that is not archived and carries the page
  identifier \<open>k\<close>: the row both dictionary-building loops keep for \<open>k\<close>.
\<close>

definition last_active :: "db_row list \<Rightarrow> string \<Rightarrow> nat \<Rightarrow> bool" where
  "last_active database k i \<longleftrightarrow>
     i < length database \<and> \<not> archived (database ! i) \<and> row_page_id (database ! i) = k
     \<and> (\<forall>j. i < j \<and> j < length database \<longrightarrow>
           archived (database ! j) \<or> row_page_id (database ! j) \<noteq> k)"

text \<open>
  The common shape of the loops that build \<open>existing_rows\<close> and the mapping of
  \<open>get_sync_db_mapping\<close>: a dictionary from page identifier to a value of the row.
\<close>

definition keyed :: "(nat \<Rightarrow> db_row \<Rightarrow> 'v) \<Rightarrow> db_row list \<Rightarrow> (string \<times> 'v) list" where
  "keyed f database =
     foldl (\<lambda>m (row_id, row).
              if row_page_id row \<noteq> [] then AList.update (row_page_id row) (f row_id row) m
              else m)
       [] (query database)"

text \<open>
  While \<open>update_sync_database\<close> runs over the entries of other pages, the rows of the
  page \<open>k\<close> stay as they were in the database \<open>db0\<close> the pass started with.
\<close>

definition untouched :: "db_row list \<Rightarrow> string \<Rightarrow> db_row list \<Rightarrow> bool" where
  "untouched db0 k d \<longleftrightarrow>
     length db0 \<le> length d
     \<and> (\<forall>j < length d. \<not> archived (d ! j) \<and> row_page_id (d ! j) = k \<longrightarrow>
           j < length db0 \<and> d ! j = db0 ! j)
     \<and> (\<forall>j < length db0. \<not> archived (db0 ! j) \<and> row_page_id (db0 ! j) = k \<longrightarrow>
           d ! j = db0 ! j)"

text \<open>Once the entry of the page \<open>k\<close> is written, the row \<open>i\<close> holds it and is the last for \<open>k\<close>.\<close>

definition settled_row :: "db_row list \<Rightarrow> string \<Rightarrow> db_row \<Rightarrow> db_row list \<Rightarrow> nat \<Rightarrow> bool" where
  "settled_row db0 k R d i \<longleftrightarrow>
     last_active d k i \<and> d ! i = R \<and> length db0 \<le> length d
     \<and> (i < length db0 \<longrightarrow> row_page_id (db0 ! i) = k)"

text \<open>
  A page the loop of \<open>sync\<close> leaves out whatever the mapping holds: its title cannot be
  read, its title has an exclusion prefix, or its timestamp cannot be converted.
\<close>

definition inert :: "(string \<Rightarrow> int option) \<Rightarrow> page \<Rightarrow> bool" where
  "inert dp p \<longleftrightarrow>
     (case page_title p of
        Inl e \<Rightarrow> True
      | Inr title \<Rightarrow>
          skipped_title title
          \<or> (case to_timestamp dp (last_edited_time p) of Inl e \<Rightarrow> True | Inr t \<Rightarrow> False))"

text \<open>The link and the timestamp of an entry of \<open>sync_data\<close>, and those a page gives.\<close>

definition entry_key :: "string \<times> string \<times> string \<times> json \<Rightarrow> string \<times> json" where
  "entry_key entry = (case entry of (title, notion_url, tg_url, dt) \<Rightarrow> (notion_url, dt))"

definition page_key :: "page \<Rightarrow> string \<times> json" where
  "page_key p = (notion_url_of (normalize_page_id (pid p)), last_edited_time p)"

definition url_page_id :: "string \<times> json \<Rightarrow> string" where
  "url_page_id key = (case search_hex32 (fst key) of None \<Rightarrow> [] | Some page_id \<Rightarrow> page_id)"

text \<open>
  A page for which a pass sends nothing, given the mapping: it is left out, or its
  timestamp converts to the same value as the stored one.
\<close>

definition quiet :: "(string \<Rightarrow> int option) \<Rightarrow> (string \<times> pin) list \<Rightarrow> page \<Rightarrow> bool" where
  "quiet dp mapping p \<longleftrightarrow>
     inert dp p
     \<or> to_timestamp dp (last_edited_time p)
         = to_timestamp dp (case map_of mapping (normalize_page_id (pid p)) of
                              None \<Rightarrow> JNull | Some record \<Rightarrow> pin_last_edited record)"

section \<open>Example data\<close>

text \<open>A text run without link and without annotation.\<close>

definition plain_run :: "string \<Rightarrow> text_run" where
  "plain_run text =
     \<lparr>plain_text = text, href = None, bold = False, italic = False, strikethrough = False,
      code = False, underline = False\<rparr>"

text \<open>Two page identifiers, two timestamps, a date parser that knows both, and a chat.\<close>

definition id_a :: string where
  "id_a = replicate 32 (CHR ''a'')"

definition id_b :: string where
  "id_b = replicate 32 (CHR ''b'')"

definition time_old :: string where
  "time_old = ''2024-01-01T00:00:00.000Z''"

definition time_new :: string where
  "time_new = ''2024-01-02T00:00:00.000Z''"

definition example_parser :: "string \<Rightarrow> int option" where
  "example_parser text =
     (if text = time_old then Some 1704067200
      else if text = time_new then Some 1704153600
      else None)"

definition example_chat :: string where
  "example_chat = ''-1001234''"

text \<open>A messaging service that accepts every request and numbers the messages from 100.\<close>

definition tg_up :: telegram where
  "tg_up history call = Some (100 + int (length history))"

text \<open>A messaging service that rejects every request.\<close>

definition tg_down :: telegram where
  "tg_down history call = None"

text \<open>A messaging service whose first request fails and which accepts the later ones.\<close>

definition tg_first_fails :: telegram where
  "tg_first_fails history call = (if history = [] then None else Some (100 + int (length history)))"

definition page_of :: "string \<Rightarrow> string \<Rightarrow> string \<Rightarrow> page" where
  "page_of page_id title edited =
     \<lparr>pid = page_id, title_items = Some [Some title], last_edited_time = JStr edited,
      children = Some [Paragraph [plain_run ''World'']]\<rparr>"

definition pin_of :: "int \<Rightarrow> string \<Rightarrow> string \<Rightarrow> pin" where
  "pin_of msg_id edited title =
     \<lparr>pin_message_id = Some msg_id, pin_last_edited = JStr edited, pin_title = Some title\<rparr>"

definition row_of :: "string \<Rightarrow> string \<Rightarrow> int \<Rightarrow> string \<Rightarrow> db_row" where
  "row_of title page_id msg_id edited =
     props_row (title, notion_url_of page_id, tg_url_of example_chat (Some msg_id), JStr edited)"

text \<open>
  A bot that has synced the pages \<open>id_a\<close> (message 7) and \<open>id_b\<close> (message 8) at
  \<open>time_old\<close>, and a bot that has synced nothing.
\<close>

definition synced_two :: state where
  "synced_two =
     \<lparr>pinned = [(id_a, pin_of 7 time_old ''Plan''), (id_b, pin_of 8 time_old ''Notes'')],
      requests = [], unawaited = [],
      db = [row_of ''Plan'' id_a 7 time_old, row_of ''Notes'' id_b 8 time_old],
      current_page_ids = {}, sync_data = []\<rparr>"

definition fresh :: state where
  "fresh = \<lparr>pinned = [], requests = [], unawaited = [], db = [],
            current_page_ids = {}, sync_data = []\<rparr>"

text \<open>A page titled \<open>Hello\<close> whose only block is the paragraph \<open>World\<close>.\<close>

definition hello_page :: "string \<Rightarrow> json \<Rightarrow> page" where
  "hello_page page_id edited =
     \<lparr>pid = page_id, title_items = Some [Some ''Hello''], last_edited_time = edited,
      children = Some [Paragraph [plain_run ''World'']]\<rparr>"

text \<open>Three answers of \<open>get_first_level_pages\<close>.\<close>

definition pages_draft :: "page list" where
  "pages_draft = [page_of id_a ''[DRAFT] Plan'' time_old, page_of id_b ''Notes'' time_old]"

definition pages_b_only :: "page list" where
  "pages_b_only = [page_of id_b ''Notes'' time_old]"

definition pages_a_edited :: "page list" where
  "pages_a_edited = [page_of id_a ''Plan'' time_new]"

definition pages_both :: "page list" where
  "pages_both = [page_of id_a ''Plan'' time_new, page_of id_b ''Notes'' time_old]"

definition pages_unchanged :: "page list" where
  "pages_unchanged = [page_of id_a ''Plan'' time_old, page_of id_b ''Notes'' time_old]"

text \<open>A page without title: Notion returns an empty title array for it.\<close>

definition untitled_page :: page where
  "untitled_page =
     \<lparr>pid = id_a, title_items = Some [], last_edited_time = JStr time_old, children = Some []\<rparr>"

definition pages_untitled :: "page list" where
  "pages_untitled = [untitled_page, page_of id_b ''Notes'' time_old]"

text \<open>
  The timestamp \<open>time_old\<close> written without milliseconds, a date parser that reads both
  writings as the same instant, and a bot whose record of \<open>id_b\<close> holds the short
  writing.
\<close>

definition time_old_short :: string where
  "time_old_short = ''2024-01-01T00:00:00Z''"

definition lenient_parser :: "string \<Rightarrow> int option" where
  "lenient_parser text =
     (if text = time_old \<or> text = time_old_short then Some 1704067200 else None)"

definition synced_short :: state where
  "synced_short =
     \<lparr>pinned = [(id_a, pin_of 7 time_old ''Plan''), (id_b, pin_of 8 time_old_short ''Notes'')],
      requests = [], unawaited = [],
      db = [row_of ''Plan'' id_a 7 time_old, row_of ''Notes'' id_b 8 time_old_short],
      current_page_ids = {}, sync_data = []\<rparr>"

text \<open>A messaging service that accepts \<open>send_message\<close> and rejects every other request.\<close>

definition tg_send_only :: telegram where
  "tg_send_only history call = (case call of SendMessage text \<Rightarrow> Some 200 | _ \<Rightarrow> None)"

section \<open>Properties of the renderer\<close>

lemma escape_markdown_v2_concat:
  "escape_markdown_v2 t =
     concat (map (\<lambda>c. if c \<in> set markdown_chars then [backslash, c] else [c]) t)"
  by (induction t) simp_all

lemma at_not_markdown: "CHR ''@'' \<notin> set markdown_chars"
  by (simp add: markdown_chars_def backtick_def)

lemma backslash_not_nick: "\<not> is_nick_char backslash"
  by (simp add: is_nick_char_def backslash_def)

lemma underscore_markdown: "CHR ''_'' \<in> set markdown_chars"
  by (simp add: markdown_chars_def)

lemma escape_underscores_Nil [simp]: "escape_underscores [] = []"
  by (simp add: escape_underscores_def)

lemma escape_underscores_id: "CHR ''_'' \<notin> set g \<Longrightarrow> escape_underscores g = g"
  unfolding escape_underscores_def by (induction g) auto

lemma escape_underscores_append:
  "escape_underscores (g @ h) = escape_underscores g @ escape_underscores h"
  unfolding escape_underscores_def by simp

lemma takeWhile_Nil_dropWhile: "takeWhile P m = [] \<Longrightarrow> dropWhile P m = m"
  by (cases m) (auto split: if_splits)

lemma takeWhile_escape:
  "\<exists>k r. t = k @ r \<and> CHR ''_'' \<notin> set k \<and> escape_markdown_v2 t = k @ escape_markdown_v2 r
     \<and> takeWhile is_nick_char (escape_markdown_v2 t @ m)
         = k @ (if r = [] then takeWhile is_nick_char m else [])
     \<and> dropWhile is_nick_char (escape_markdown_v2 t @ m)
         = (if r = [] then dropWhile is_nick_char m else escape_markdown_v2 r @ m)"
proof (induction t)
  case Nil
  show ?case by simp
next
  case (Cons c cs)
  show ?case
  proof (cases "c \<in> set markdown_chars")
    case True
    then show ?thesis
      by (intro exI[of _ "[]"] exI[of _ "c # cs"]) (simp add: backslash_not_nick)
  next
    case False
    note nm = this
    show ?thesis
    proof (cases "is_nick_char c")
      case False
      with nm show ?thesis
        by (intro exI[of _ "[]"] exI[of _ "c # cs"]) simp
    next
      case True
      from Cons.IH obtain k r where kr: "cs = k @ r" "CHR ''_'' \<notin> set k"
        "escape_markdown_v2 cs = k @ escape_markdown_v2 r"
        "takeWhile is_nick_char (escape_markdown_v2 cs @ m)
           = k @ (if r = [] then takeWhile is_nick_char m else [])"
        "dropWhile is_nick_char (escape_markdown_v2 cs @ m)
           = (if r = [] then dropWhile is_nick_char m else escape_markdown_v2 r @ m)"
        by blast
      have cu: "c \<noteq> CHR ''_''" using nm underscore_markdown by auto
      show ?thesis
        using kr nm True cu
        by (intro exI[of _ "c # k"] exI[of _ r]) simp
    qed
  qed
qed

lemma nick_escape:
  "\<exists>post. escape_telegram_nicknames (escape_markdown_v2 t @ m) = escape_markdown_v2 t @ post
     \<and> (takeWhile is_nick_char m = [] \<longrightarrow> post = escape_telegram_nicknames m)"
proof (induction "length t" arbitrary: t rule: less_induct)
  case less
  show ?case
  proof (cases t)
    case Nil
    then show ?thesis by simp
  next
    case (Cons c cs)
    show ?thesis
    proof (cases "c = CHR ''@''")
      case False
      from less[of cs] Cons obtain post where
        p: "escape_telegram_nicknames (escape_markdown_v2 cs @ m) = escape_markdown_v2 cs @ post"
           "takeWhile is_nick_char m = [] \<longrightarrow> post = escape_telegram_nicknames m"
        by auto
      show ?thesis
        using Cons False p by (auto simp: backslash_def)
    next
      case True
      obtain k r where kr: "cs = k @ r" "CHR ''_'' \<notin> set k"
        "escape_markdown_v2 cs = k @ escape_markdown_v2 r"
        "takeWhile is_nick_char (escape_markdown_v2 cs @ m)
           = k @ (if r = [] then takeWhile is_nick_char m else [])"
        "dropWhile is_nick_char (escape_markdown_v2 cs @ m)
           = (if r = [] then dropWhile is_nick_char m else escape_markdown_v2 r @ m)"
        using takeWhile_escape[of cs m] by blast
      from less[of r] Cons kr(1) obtain post where
        p: "escape_telegram_nicknames (escape_markdown_v2 r @ m) = escape_markdown_v2 r @ post"
           "takeWhile is_nick_char m = [] \<longrightarrow> post = escape_telegram_nicknames m"
        by auto
      from less[of cs] Cons obtain post' where
        p': "escape_telegram_nicknames (escape_markdown_v2 cs @ m)
               = escape_markdown_v2 cs @ post'"
            "takeWhile is_nick_char m = [] \<longrightarrow> post' = escape_telegram_nicknames m"
        by auto
      have e: "escape_markdown_v2 t = c # escape_markdown_v2 cs"
        using Cons True at_not_markdown by simp
      show ?thesis
        using True kr p p' escape_underscores_id[OF kr(2)]
        by (auto simp: e escape_underscores_append takeWhile_Nil_dropWhile)
    qed
  qed
qed

lemma nick_marker_prefix:
  "CHR ''@'' \<notin> set m \<Longrightarrow>
     escape_telegram_nicknames (m @ s) = m @ escape_telegram_nicknames s"
  by (induction m) auto

lemma nick_style_text:
  "\<exists>pre post. escape_telegram_nicknames (style_text True seg)
     = pre @ escape_markdown_v2 (plain_text seg) @ post"
proof -
  have *: "\<And>m m'. CHR ''@'' \<notin> set m \<Longrightarrow>
     \<exists>pre post. escape_telegram_nicknames (m @ escape_markdown_v2 (plain_text seg) @ m')
        = pre @ escape_markdown_v2 (plain_text seg) @ post"
    using nick_escape nick_marker_prefix by metis
  show ?thesis
    unfolding style_text_def run_body_def
    using *[of "''*''" "''*''"] *[of "''_''" "''_''"] *[of "''~''" "''~''"]
      *[of "[backtick]" "[backtick]"] *[of "''__''" "''__''"] *[of "[]" "[]"]
    by (simp add: backtick_def)
qed

lemma nick_bold:
  "escape_telegram_nicknames (''*'' @ escape_markdown_v2 t @ ''*'')
     = ''*'' @ escape_markdown_v2 t @ ''*''"
proof -
  obtain post where p:
    "escape_telegram_nicknames (escape_markdown_v2 t @ ''*'') = escape_markdown_v2 t @ post"
    "takeWhile is_nick_char ''*'' = [] \<longrightarrow> post = escape_telegram_nicknames ''*''"
    using nick_escape by blast
  have "post = ''*''" using p(2) by (simp add: is_nick_char_def)
  with p(1) show ?thesis by simp
qed

lemma wrap_link_infix: "\<exists>pre post. wrap_link h (a @ x @ b) = pre @ x @ post"
proof (cases h)
  case None
  then show ?thesis by (auto simp: wrap_link_def)
next
  case (Some url)
  show ?thesis
  proof (cases "url = []")
    case True
    with Some show ?thesis by (auto simp: wrap_link_def)
  next
    case False
    have "wrap_link h (a @ x @ b) = (''['' @ a) @ x @ (b @ '']('' @ url @ '')'')"
      using Some False by (simp add: wrap_link_def)
    then show ?thesis by blast
  qed
qed

lemma parse_segment_escaped:
  "\<exists>pre post. parse_segment True seg = pre @ escape_markdown_v2 (plain_text seg) @ post"
proof -
  obtain a b where "escape_telegram_nicknames (style_text True seg)
      = a @ escape_markdown_v2 (plain_text seg) @ b"
    using nick_style_text by blast
  then show ?thesis
    using wrap_link_infix[of "href seg" a "escape_markdown_v2 (plain_text seg)" b]
    by (simp add: parse_segment_def)
qed

lemma style_text_raw: "\<exists>a b. style_text False seg = a @ plain_text seg @ b"
proof -
  have *: "\<And>m m'. \<exists>a b. m @ plain_text seg @ m' = a @ plain_text seg @ b" by blast
  show ?thesis
    unfolding style_text_def run_body_def
    using *[of "''*''" "''*''"] *[of "''_''" "''_''"] *[of "''~''" "''~''"]
      *[of "[backtick]" "[backtick]"] *[of "''__''" "''__''"] *[of "[]" "[]"]
    by simp
qed

lemma parse_segment_raw: "\<exists>pre post. parse_segment False seg = pre @ plain_text seg @ post"
proof -
  obtain a b where "style_text False seg = a @ plain_text seg @ b"
    using style_text_raw by blast
  then show ?thesis
    using wrap_link_infix[of "href seg" a "plain_text seg" b]
    by (simp add: parse_segment_def)
qed

lemma concat_map_infix:
  assumes "x \<in> set xs" and "f x = a @ y @ b"
  shows "\<exists>pre post. concat (map f xs) = pre @ y @ post"
proof -
  from assms(1) obtain us vs where "xs = us @ x # vs" by (auto dest: split_list)
  then have "concat (map f xs) = (concat (map f us) @ a) @ y @ (b @ concat (map f vs))"
    using assms(2) by simp
  then show ?thesis by blast
qed

lemma join_infix:
  assumes "p \<in> set ps" and "p = a @ y @ b"
  shows "\<exists>pre post. join sep ps = pre @ y @ post"
  using assms
proof (induction sep ps rule: join.induct)
  case (1 sep)
  then show ?case by simp
next
  case (2 sep q)
  then show ?case by auto
next
  case (3 sep q r ps)
  show ?case
  proof (cases "p = q")
    case True
    then have "join sep (q # r # ps) = a @ y @ (b @ sep @ join sep (r # ps))"
      using 3 by simp
    then show ?thesis by blast
  next
    case False
    then have "p \<in> set (r # ps)" using 3 by auto
    then obtain pre post where "join sep (r # ps) = pre @ y @ post"
      using 3 by blast
    then have "join sep (q # r # ps) = (q @ sep @ pre) @ y @ post" by simp
    then show ?thesis by blast
  qed
qed

text \<open>
  C7. For a text run rendered by \<open>_parse_rich_text\<close> with escaping, the default, used
  for every run outside a table cell, the rendered rich text contains the plain text of
  the run with a backslash before each character of \<open>_*[]()~`>#+-=|{}.!\<close> and every
  other character as it is. In a table row, the rendered row contains the plain text of
  each run of each cell unchanged.
\<close>

theorem text_run_escaping:
  "(seg \<in> set rich_text \<longrightarrow>
      (\<exists>pre post. parse_rich_text rich_text True
         = pre @ concat (map (\<lambda>c. if c \<in> set markdown_chars then [backslash, c] else [c])
                          (plain_text seg)) @ post))
   \<and> (seg \<in> set cell \<and> cell \<in> set cells \<longrightarrow>
      (\<exists>pre post. parse_table_row (TableRow cells) = Inr (pre @ plain_text seg @ post)))"
proof (intro conjI impI)
  assume seg: "seg \<in> set rich_text"
  obtain a b where "parse_segment True seg = a @ escape_markdown_v2 (plain_text seg) @ b"
    using parse_segment_escaped by blast
  from concat_map_infix[of seg rich_text "parse_segment True" a _ b, OF seg this]
  show "\<exists>pre post. parse_rich_text rich_text True
         = pre @ concat (map (\<lambda>c. if c \<in> set markdown_chars then [backslash, c] else [c])
                          (plain_text seg)) @ post"
    by (simp add: parse_rich_text_def escape_markdown_v2_concat)
next
  assume h: "seg \<in> set cell \<and> cell \<in> set cells"
  obtain a b where "parse_segment False seg = a @ plain_text seg @ b"
    using parse_segment_raw by blast
  from concat_map_infix[of seg cell "parse_segment False" a _ b, OF conjunct1[OF h] this]
  obtain c d where cd: "parse_rich_text cell False = c @ plain_text seg @ d"
    by (auto simp: parse_rich_text_def)
  have "parse_rich_text cell False \<in> set (map (\<lambda>cell. parse_rich_text cell False) cells)"
    using h by auto
  from join_infix[of _ _ c _ d, OF this cd]
  show "\<exists>pre post. parse_table_row (TableRow cells) = Inr (pre @ plain_text seg @ post)"
    by simp
qed

theorem text_run_escaping_witness:
  "(\<exists>pre post. parse_rich_text [plain_run ''a.b''] True = pre @ (''a'' @ [backslash] @ ''.b'') @ post)
   \<and> (\<exists>pre post. parse_table_row (TableRow [[plain_run ''a.b'']]) = Inr (pre @ ''a.b'' @ post))"
  using text_run_escaping[of "plain_run ''a.b''" "[plain_run ''a.b'']" "[plain_run ''a.b'']"
      "[[plain_run ''a.b'']]"]
  by (simp add: plain_run_def markdown_chars_def backtick_def)

text \<open>
  C8. The styled text of a run is its body between two copies of one marker, the marker
  of the first flag set in the order bold, italic, strikethrough, code, underline (no
  marker when none is set). A run flagged bold and italic is rendered as its body between
  two asterisks, inside the link when it has one.
\<close>

theorem style_precedence:
  "style_text escape seg = style_marker seg @ run_body escape seg @ style_marker seg
   \<and> (bold seg \<and> italic seg \<longrightarrow>
        parse_segment escape seg = wrap_link (href seg) (''*'' @ run_body escape seg @ ''*''))"
proof -
  have "style_text escape seg = style_marker seg @ run_body escape seg @ style_marker seg"
    by (simp add: style_text_def style_marker_def)
  moreover have "bold seg \<Longrightarrow>
      parse_segment escape seg = wrap_link (href seg) (''*'' @ run_body escape seg @ ''*'')"
    using nick_bold[of "plain_text seg"]
    by (cases escape) (simp_all add: parse_segment_def style_text_def run_body_def)
  ultimately show ?thesis by blast
qed

theorem style_precedence_witness:
  "parse_segment True ((plain_run ''a_b'')\<lparr>bold := True, italic := True\<rparr>)
     = ''*a'' @ [backslash] @ ''_b*''"
  using style_precedence[of True "(plain_run ''a_b'')\<lparr>bold := True, italic := True\<rparr>"]
  by (simp add: plain_run_def wrap_link_def run_body_def markdown_chars_def backtick_def)

lemma code_block_constant:
  "parse_block (Code rich_text language) = replicate 6 backtick @ [newline, newline]"
  by simp

text \<open>
  C3. A code block with the text \<open>print(1)\<close> and the language \<open>python\<close> is rendered
  as six backticks and two newlines: the fragment holds neither the text of the block nor
  its language.
\<close>

theorem code_block_fragment:
  "parse_block (Code [plain_run ''print(1)''] ''python'') = replicate 6 backtick @ [newline, newline]
   \<and> CHR ''p'' \<notin> set (parse_block (Code [plain_run ''print(1)''] ''python''))"
  by (simp add: backtick_def newline_def)

section \<open>Properties of the reconciler\<close>

lemma map_of_update_same: "map_of (AList.update k v al) k = Some v"
  by (simp add: update_conv')

lemma pinned_lookup_ids [simp]:
  "pinned_message_id (s\<lparr>current_page_ids := ids\<rparr>) = pinned_message_id s"
  "pinned_last_edited (s\<lparr>current_page_ids := ids\<rparr>) = pinned_last_edited s"
  by (simp_all add: pinned_message_id_def pinned_last_edited_def fun_eq_iff)

lemma create_post_cases:
  "(case tg (requests s) (SendMessage msg) of
      None \<Rightarrow>
        requests (create_post tg k msg edited s) = requests s @ [SendMessage msg]
        \<and> pinned (create_post tg k msg edited s) = pinned s
    | Some m \<Rightarrow>
        requests (create_post tg k msg edited s)
          = requests s @ [SendMessage msg, PinChatMessage m]
        \<and> (case tg (requests s @ [SendMessage msg]) (PinChatMessage m) of
             None \<Rightarrow> pinned (create_post tg k msg edited s) = pinned s
           | Some ok \<Rightarrow>
               pinned (create_post tg k msg edited s)
                 = AList.update k \<lparr>pin_message_id = Some m, pin_last_edited = edited,
                                    pin_title = None\<rparr> (pinned s)))
   \<and> sync_data (create_post tg k msg edited s) = sync_data s
   \<and> unawaited (create_post tg k msg edited s) = unawaited s
   \<and> db (create_post tg k msg edited s) = db s
   \<and> current_page_ids (create_post tg k msg edited s) = current_page_ids s"
  by (simp add: create_post_def await_def split: option.splits)

lemma sync_page_changed:
  assumes "page_title p = Inr title" and "\<not> skipped_title title"
    and "to_timestamp dp (last_edited_time p) = Inr t"
    and "to_timestamp dp (pinned_last_edited s (normalize_page_id (pid p))) = Inr t'"
    and "t \<noteq> t'"
  shows "sync_page chat dp tg p s =
     (let k = normalize_page_id (pid p);
          text = page_message title (get_page_content p);
          s0 = s\<lparr>current_page_ids := insert k (current_page_ids s)\<rparr>;
          s1 = (case pinned_message_id s k of
                  None \<Rightarrow> create_post tg k text (last_edited_time p) s0
                | Some n \<Rightarrow> if n \<noteq> 0 then edit_post tg k n text (last_edited_time p) s0
                            else create_post tg k text (last_edited_time p) s0)
      in s1\<lparr>sync_data := sync_data s1
             @ [(title, notion_url_of k, tg_url_of chat (pinned_message_id s1 k),
                 last_edited_time p)]\<rparr>)"
  using assms by (simp add: sync_page_def Let_def)

text \<open>
  The outcomes of the fallback. For a changed page with an existing message whose edit
  raises, the pass sends one \<open>send_message\<close> with the same text. When it returns a
  message and the pin of that message succeeds, \<open>pinned\<close> and the entry of \<open>sync_data\<close>
  refer to the new message; when the \<open>send_message\<close> or the pin raises, \<open>pinned\<close> still
  refers to the old message.
\<close>

lemma edit_failure_fallback:
  fixes p :: page and s :: state and tg :: telegram
  defines "k \<equiv> normalize_page_id (pid p)"
  assumes "page_title p = Inr title" and "\<not> skipped_title title"
    and "to_timestamp dp (last_edited_time p) = Inr t"
    and "to_timestamp dp (pinned_last_edited s k) = Inr t'"
    and "t \<noteq> t'"
    and "pinned_message_id s k = Some n" and "n \<noteq> 0"
    and "msg = page_message title (get_page_content p)"
    and "tg (requests s) (EditMessageText n msg) = None"
  shows "case tg (requests s @ [EditMessageText n msg]) (SendMessage msg) of
      None \<Rightarrow>
        requests (sync_page chat dp tg p s)
          = requests s @ [EditMessageText n msg, SendMessage msg]
        \<and> pinned_message_id (sync_page chat dp tg p s) k = Some n
    | Some m \<Rightarrow>
        requests (sync_page chat dp tg p s)
          = requests s @ [EditMessageText n msg, SendMessage msg, PinChatMessage m]
        \<and> (case tg (requests s @ [EditMessageText n msg, SendMessage msg]) (PinChatMessage m) of
             None \<Rightarrow> pinned_message_id (sync_page chat dp tg p s) k = Some n
           | Some ok \<Rightarrow>
               pinned_message_id (sync_page chat dp tg p s) k = Some m
               \<and> last (sync_data (sync_page chat dp tg p s))
                   = (title, notion_url_of k, tg_url_of chat (Some m), last_edited_time p))"
proof -
  let ?s0 = "s\<lparr>current_page_ids := insert k (current_page_ids s)\<rparr>"
  let ?s1 = "?s0\<lparr>requests := requests s @ [EditMessageText n msg]\<rparr>"
  let ?c = "create_post tg k msg (last_edited_time p) ?s1"
  have e: "edit_post tg k n msg (last_edited_time p) ?s0 = ?c"
    using assms(10) by (simp add: edit_post_def await_def)
  note ts = assms(5)[unfolded k_def]
  have sp: "sync_page chat dp tg p s =
      ?c\<lparr>sync_data := sync_data ?c
            @ [(title, notion_url_of k, tg_url_of chat (pinned_message_id ?c k),
                last_edited_time p)]\<rparr>"
    using sync_page_changed[OF assms(2,3,4) ts assms(6), of chat tg]
      assms(7,8,9) e
    by (simp add: Let_def k_def)
  have old: "map_of (pinned s) k \<noteq> None \<and> pinned_message_id s k = Some n"
    using assms(7) by (auto simp: pinned_message_id_def split: option.splits)
  show ?thesis
    using create_post_cases[where tg = tg and s = "?s1" and msg = msg and k = k and edited = "last_edited_time p"] old
    by (auto simp: sp pinned_message_id_def map_of_update_same split: option.splits)
qed

lemma edit_failure_fallback_example:
  "requests (sync_page example_chat example_parser tg_first_fails (page_of id_a ''Plan'' time_new)
      synced_two)
     = [EditMessageText 7 ''*Plan*\<newline>\<newline>World'', SendMessage ''*Plan*\<newline>\<newline>World'',
        PinChatMessage 101]
   \<and> pinned_message_id (sync_page example_chat example_parser tg_first_fails
        (page_of id_a ''Plan'' time_new) synced_two) id_a = Some 101"
proof -
  have n: "normalize_page_id (pid (page_of id_a ''Plan'' time_new)) = id_a" by code_simp
  have h1: "page_title (page_of id_a ''Plan'' time_new) = Inr ''Plan''" by code_simp
  have h2: "\<not> skipped_title ''Plan''" by code_simp
  have h3: "to_timestamp example_parser (last_edited_time (page_of id_a ''Plan'' time_new))
      = Inr 1704153600" by code_simp
  have h4: "to_timestamp example_parser (pinned_last_edited synced_two
        (normalize_page_id (pid (page_of id_a ''Plan'' time_new)))) = Inr 1704067200"
    by code_simp
  have h5: "(1704153600::int) \<noteq> 1704067200" by simp
  have h6: "pinned_message_id synced_two
      (normalize_page_id (pid (page_of id_a ''Plan'' time_new))) = Some 7" by code_simp
  have h7: "(7::int) \<noteq> 0" by simp
  have h8: "''*Plan*\<newline>\<newline>World''
      = page_message ''Plan'' (get_page_content (page_of id_a ''Plan'' time_new))" by code_simp
  have h9: "tg_first_fails (requests synced_two) (EditMessageText 7 ''*Plan*\<newline>\<newline>World'') = None"
    by code_simp
  have a: "tg_first_fails (requests synced_two @ [EditMessageText 7 ''*Plan*\<newline>\<newline>World''])
      (SendMessage ''*Plan*\<newline>\<newline>World'') = Some 101" by code_simp
  have b: "tg_first_fails (requests synced_two @ [EditMessageText 7 ''*Plan*\<newline>\<newline>World'',
      SendMessage ''*Plan*\<newline>\<newline>World'']) (PinChatMessage 101) = Some 102" by code_simp
  have r: "requests synced_two = []" by code_simp
  from edit_failure_fallback[where p = "page_of id_a ''Plan'' time_new" and s = synced_two
      and tg = tg_first_fails and chat = example_chat and dp = example_parser
      and msg = "''*Plan*\<newline>\<newline>World''", OF h1 h2 h3 h4 h5 h6 h7 h8 h9]
  show ?thesis
    by (simp add: n r a[unfolded r, simplified] b[unfolded r, simplified])
qed

lemma to_timestamp_cases:
  "dt \<noteq> JFloat Inf \<Longrightarrow> dt \<noteq> JFloat NaN \<Longrightarrow> \<exists>n. to_timestamp dp dt = Inr n"
  by (cases dt) (auto simp: to_timestamp_def int_of_float_def split: option.splits pyfloat.splits)

lemma sync_page_unchanged:
  assumes "to_timestamp dp (last_edited_time p)
            = to_timestamp dp (pinned_last_edited s (normalize_page_id (pid p)))"
  shows "requests (sync_page chat dp tg p s) = requests s"
    and "pinned (sync_page chat dp tg p s) = pinned s"
    and "unawaited (sync_page chat dp tg p s) = unawaited s"
    and "db (sync_page chat dp tg p s) = db s"
  using assms
  by (auto simp: sync_page_def Let_def pinned_last_edited_def pinned_message_id_def
      split: sum.splits option.splits)

text \<open>
  C10. \<open>_to_timestamp\<close> returns an integer for every input that is not an infinite or
  NaN float; it returns 0 for a missing value, an empty string and a string the date parser
  rejects. A page whose timestamp is missing, empty or rejected and that has no entry in
  \<open>pinned\<close> compares 0 to 0: the pass sends no request for it and leaves \<open>pinned\<close>
  as it is.
\<close>

theorem to_timestamp_total_on_finite:
  "(dt \<noteq> JFloat Inf \<and> dt \<noteq> JFloat NaN \<longrightarrow> (\<exists>n. to_timestamp dp dt = Inr n))
   \<and> to_timestamp dp JNull = Inr 0
   \<and> to_timestamp dp (JStr []) = Inr 0
   \<and> (dp text = None \<longrightarrow> to_timestamp dp (JStr text) = Inr 0)
   \<and> ((last_edited_time p = JNull \<or> last_edited_time p = JStr []
         \<or> (\<exists>t. last_edited_time p = JStr t \<and> dp t = None))
        \<and> map_of (pinned s) (normalize_page_id (pid p)) = None \<longrightarrow>
        to_timestamp dp (last_edited_time p) = Inr 0
        \<and> to_timestamp dp (pinned_last_edited s (normalize_page_id (pid p))) = Inr 0
        \<and> requests (sync_page chat dp tg p s) = requests s
        \<and> pinned (sync_page chat dp tg p s) = pinned s)"
proof (intro conjI impI)
  assume "dt \<noteq> JFloat Inf \<and> dt \<noteq> JFloat NaN"
  then show "\<exists>n. to_timestamp dp dt = Inr n" using to_timestamp_cases by blast
next
  show "to_timestamp dp JNull = Inr 0" by (simp add: to_timestamp_def falsy_def)
next
  show "to_timestamp dp (JStr []) = Inr 0" by (simp add: to_timestamp_def falsy_def)
next
  assume "dp text = None"
  then show "to_timestamp dp (JStr text) = Inr 0" by (simp add: to_timestamp_def falsy_def)
next
  assume h: "(last_edited_time p = JNull \<or> last_edited_time p = JStr []
         \<or> (\<exists>t. last_edited_time p = JStr t \<and> dp t = None))
        \<and> map_of (pinned s) (normalize_page_id (pid p)) = None"
  then have a: "to_timestamp dp (last_edited_time p) = Inr 0"
    by (auto simp: to_timestamp_def falsy_def)
  from h have b: "to_timestamp dp (pinned_last_edited s (normalize_page_id (pid p))) = Inr 0"
    by (simp add: pinned_last_edited_def to_timestamp_def falsy_def)
  show "to_timestamp dp (last_edited_time p) = Inr 0" by (rule a)
  show "to_timestamp dp (pinned_last_edited s (normalize_page_id (pid p))) = Inr 0" by (rule b)
  show "requests (sync_page chat dp tg p s) = requests s"
    using sync_page_unchanged(1)[of dp p s] a b by simp
  show "pinned (sync_page chat dp tg p s) = pinned s"
    using sync_page_unchanged(2)[of dp p s] a b by simp
qed

theorem to_timestamp_total_on_finite_witness:
  "to_timestamp example_parser (JInt 5) = Inr 5
   \<and> to_timestamp example_parser (JStr ''yesterday'') = Inr 0
   \<and> requests (sync_page example_chat example_parser tg_up
        (page_of id_a ''Plan'' ''yesterday'') fresh) = []
   \<and> pinned (sync_page example_chat example_parser tg_up
        (page_of id_a ''Plan'' ''yesterday'') fresh) = []"
  using to_timestamp_total_on_finite[of "JInt 5" example_parser "''yesterday''"
      "page_of id_a ''Plan'' ''yesterday''" fresh example_chat tg_up]
  by (simp add: to_timestamp_def falsy_def example_parser_def time_old_def time_new_def
      page_of_def fresh_def)

text \<open>
  C10, as stated, fails on an infinite float: \<open>int(dt)\<close> is outside the \<open>try\<close> and
  raises.
\<close>

theorem to_timestamp_raises_on_infinity:
  "to_timestamp example_parser (JFloat Inf) = Inl OverflowError"
  by (simp add: to_timestamp_def falsy_def int_of_float_def)

text \<open>
  C1. The pages \<open>id_a\<close> and \<open>id_b\<close> are synced, and the title of \<open>id_a\<close> now starts
  with \<open>[DRAFT]\<close>. The cleanup step selects no page (the identifier of the excluded
  page is in \<open>current_page_ids\<close>), while the persist step archives the row of
  \<open>id_a\<close>; after the pass \<open>id_a\<close> has no entry in \<open>pinned\<close> and its message was
  neither unpinned nor deleted.
\<close>

theorem excluded_page_archived_not_cleaned:
  "map fst (pinned (cleanup_posts
       (current_page_ids (sync_loop example_chat example_parser tg_up pages_draft synced_two))
       (sync_loop example_chat example_parser tg_up pages_draft synced_two))) = [id_a, id_b]
   \<and> unawaited (cleanup_posts
       (current_page_ids (sync_loop example_chat example_parser tg_up pages_draft synced_two))
       (sync_loop example_chat example_parser tg_up pages_draft synced_two)) = []
   \<and> archived_page_ids
       (sync_data (sync_loop example_chat example_parser tg_up pages_draft synced_two))
       (db synced_two) = [id_a]
   \<and> map archived (db (sync example_chat example_parser tg_up pages_draft synced_two))
       = [True, False]
   \<and> map fst (pinned (sync example_chat example_parser tg_up pages_draft synced_two)) = [id_b]
   \<and> requests (sync example_chat example_parser tg_up pages_draft synced_two) = []
   \<and> unawaited (sync example_chat example_parser tg_up pages_draft synced_two) = []"
  by code_simp

text \<open>
  C5. The page \<open>id_a\<close> (message 7) is synced and no longer among the pages. The pass
  builds one unpin and one delete coroutine for message 7 and awaits neither: no request
  is sent to the messaging service. The identifier is removed from \<open>pinned\<close>.
\<close>

theorem cleanup_sends_no_request:
  "requests (sync example_chat example_parser tg_up pages_b_only synced_two) = []
   \<and> unawaited (sync example_chat example_parser tg_up pages_b_only synced_two)
       = [UnpinChatMessage (Some 7), DeleteMessage (Some 7)]
   \<and> map fst (pinned (sync example_chat example_parser tg_up pages_b_only synced_two)) = [id_b]"
  by code_simp

text \<open>
  C4. A page without a record is new, and \<open>send_message\<close> fails. The pass writes a row
  with the new timestamp and no message link, and reloads \<open>pinned\<close> from it; the next
  pass, with the messaging service working, compares equal timestamps and sends nothing.
\<close>

theorem failed_create_advances_timestamp:
  "requests (sync example_chat example_parser tg_first_fails pages_a_edited fresh)
     = [SendMessage ''*Plan*\<newline>\<newline>World'']
   \<and> map row_date (db (sync example_chat example_parser tg_first_fails pages_a_edited fresh))
     = [JStr time_new]
   \<and> map row_telegram (db (sync example_chat example_parser tg_first_fails pages_a_edited fresh))
     = [None]
   \<and> pinned_last_edited (sync example_chat example_parser tg_first_fails pages_a_edited fresh) id_a
     = JStr time_new
   \<and> requests (sync example_chat example_parser tg_first_fails pages_a_edited
        (sync example_chat example_parser tg_first_fails pages_a_edited fresh))
     = [SendMessage ''*Plan*\<newline>\<newline>World'']"
  by code_simp

text \<open>
  The messaging service is down: the edit of message 7 raises, the \<open>send_message\<close> of
  the fallback raises, no message is created and \<open>pinned\<close> still refers to message 7.
\<close>

lemma failed_fallback_keeps_old_message:
  "tg_down (requests synced_two) (EditMessageText 7 ''*Plan*\<newline>\<newline>World'') = None
   \<and> requests (sync_page example_chat example_parser tg_down (page_of id_a ''Plan'' time_new)
        synced_two)
     = [EditMessageText 7 ''*Plan*\<newline>\<newline>World'', SendMessage ''*Plan*\<newline>\<newline>World'']
   \<and> pinned_message_id (sync_page example_chat example_parser tg_down
        (page_of id_a ''Plan'' time_new) synced_two) id_a = Some 7"
  by code_simp

text \<open>
  C6. Page \<open>id_a\<close> (message 7) is edited; the edit of message 7 raises, the
  \<open>send_message\<close> of the fallback returns the new message 200, and the pin of message 200
  raises. The new message exists, yet \<open>create_post\<close> skips the update of \<open>pinned\<close>:
  after the step and after the pass \<open>pinned\<close> still refers to message 7, the sync
  database keeps the link of message 7, and the new timestamp is stored.
\<close>

theorem failed_pin_keeps_old_message:
  "tg_send_only [EditMessageText 7 ''*Plan*\<newline>\<newline>World''] (SendMessage ''*Plan*\<newline>\<newline>World'')
     = Some 200
   \<and> requests (sync example_chat example_parser tg_send_only pages_both synced_two)
     = [EditMessageText 7 ''*Plan*\<newline>\<newline>World'', SendMessage ''*Plan*\<newline>\<newline>World'',
        PinChatMessage 200]
   \<and> pinned_message_id (sync_page example_chat example_parser tg_send_only
        (page_of id_a ''Plan'' time_new) synced_two) id_a = Some 7
   \<and> pinned_message_id (sync example_chat example_parser tg_send_only pages_both synced_two) id_a
     = Some 7
   \<and> map row_telegram (db (sync example_chat example_parser tg_send_only pages_both synced_two))
     = [Some ''https://t.me/c/1234/7'', Some ''https://t.me/c/1234/8'']
   \<and> pinned_last_edited (sync example_chat example_parser tg_send_only pages_both synced_two) id_a
     = JStr time_new"
  by code_simp

lemma takeWhile_all: "list_all P xs \<Longrightarrow> takeWhile P xs = xs"
  by (induction xs) auto

lemma search_hex32_valid: "valid_id k \<Longrightarrow> search_hex32 (k @ rest) = Some k"
proof -
  assume v: "valid_id k"
  then obtain c cs where k: "k = c # cs" by (cases k) (auto simp: valid_id_def)
  have "list_all is_hex k" using v by (simp add: valid_id_def)
  then have "takeWhile is_hex (k @ rest) = k @ takeWhile is_hex rest"
    by (induction k) auto
  then have "32 \<le> length (takeWhile is_hex (k @ rest))" using v by (simp add: valid_id_def)
  moreover have "take 32 (k @ rest) = k" using v by (simp add: valid_id_def)
  ultimately show ?thesis unfolding k by simp
qed

lemma search_hex32_notion_url: "valid_id k \<Longrightarrow> search_hex32 (notion_url_of k) = Some k"
  using search_hex32_valid[of k "[]"]
  by (simp add: notion_url_of_def is_hex_def)

lemma data_page_id_notion_url:
  "valid_id k \<Longrightarrow> data_page_id (title, notion_url_of k, url, dt) = k"
  by (simp add: data_page_id_def search_hex32_notion_url)

lemma valid_id_nonempty: "valid_id k \<Longrightarrow> k \<noteq> []"
  by (auto simp: valid_id_def)

lemma digit_char_is_digit: "d < 10 \<Longrightarrow> is_digit (digit_char d)"
proof -
  assume "d < 10"
  then have "d \<in> {0,1,2,3,4,5,6,7,8,9}" by auto
  then show ?thesis by (auto simp: is_digit_def digit_char_def)
qed

lemma digit_value_digit_char: "d < 10 \<Longrightarrow> digit_value (digit_char d) = int d"
proof -
  assume "d < 10"
  then have "d \<in> {0,1,2,3,4,5,6,7,8,9}" by auto
  then show ?thesis by (auto simp: digit_value_def digit_char_def)
qed

lemma str_nat_digits: "list_all is_digit (str_nat n) \<and> str_nat n \<noteq> []"
proof (induction n rule: str_nat.induct)
  case (1 n)
  show ?case
  proof (cases "n < 10")
    case True
    then show ?thesis by (simp add: str_nat.simps[of n] digit_char_is_digit)
  next
    case False
    with 1 show ?thesis by (simp add: str_nat.simps[of n] digit_char_is_digit)
  qed
qed

lemma int_of_digits_snoc:
  "int_of_digits (ds @ [c]) = 10 * int_of_digits ds + digit_value c"
  by (simp add: int_of_digits_def)

lemma int_of_digits_str_nat: "int_of_digits (str_nat n) = int n"
proof (induction n rule: str_nat.induct)
  case (1 n)
  show ?case
  proof (cases "n < 10")
    case True
    then show ?thesis
      by (simp add: str_nat.simps[of n] int_of_digits_def digit_value_digit_char)
  next
    case False
    with 1 have "int_of_digits (str_nat (n div 10)) = int (n div 10)" by simp
    moreover have "10 * int (n div 10) + int (n mod 10) = int n" by presburger
    ultimately show ?thesis
      using False
      by (simp add: str_nat.simps[of n] int_of_digits_snoc digit_value_digit_char)
  qed
qed

lemma dropWhile_keeps:
  "\<not> P y \<Longrightarrow> y \<in> set (dropWhile P (xs @ y # ys))"
  by (induction xs) auto

lemma search_message_id_last:
  assumes "list_all is_digit ds" and "ds \<noteq> []"
  shows "search_message_id (pre @ CHR ''/'' # ds) = Some ds"
proof (induction pre)
  case Nil
  have tw: "takeWhile is_digit ds = ds" using assms(1) by (rule takeWhile_all)
  have dw: "dropWhile is_digit ds = []" using assms(1) by (induction ds) auto
  show ?case by (simp add: tw dw assms(2))
next
  case (Cons c pre)
  define D where "D = dropWhile is_digit (pre @ CHR ''/'' # ds)"
  have ns: "\<not> is_digit (CHR ''/'')" by (simp add: is_digit_def)
  have m: "CHR ''/'' \<in> set D"
    unfolding D_def using dropWhile_keeps[of is_digit "CHR ''/''" pre ds] ns by blast
  have "D \<noteq> []" using m by (cases D) simp_all
  moreover have "D \<noteq> [newline]" using m by (auto simp: newline_def)
  ultimately show ?case using Cons ns by (simp add: D_def)
qed

lemma row_message_id_tg_url:
  assumes "0 < m"
  shows "row_message_id (props_row (title, url, tg_url_of chat (Some m), dt)) = Some m"
proof -
  have u: "tg_url_of chat (Some m)
      = (''https://t.me/c/'' @ replace ''-100'' [] chat) @ CHR ''/'' # str_nat (nat m)"
    using assms by (simp add: tg_url_of_def str_int_def)
  have s: "search_message_id (tg_url_of chat (Some m)) = Some (str_nat (nat m))"
    unfolding u using search_message_id_last str_nat_digits by blast
  have ne: "tg_url_of chat (Some m) \<noteq> []" unfolding u by simp
  show ?thesis
    using assms ne by (simp add: row_message_id_def props_row_def s int_of_digits_str_nat)
qed

lemma hello_content: "get_page_content (hello_page page_id edited) = ''World''"
  by code_simp

lemma hello_message:
  "page_message ''Hello'' (get_page_content (hello_page page_id edited))
     = ''*Hello*\<newline>\<newline>World''"
  unfolding hello_content by code_simp

lemma not_skipped_hello: "\<not> skipped_title ''Hello''"
  by code_simp

lemma hello_title: "page_title (hello_page page_id edited) = Inr ''Hello''"
  by (simp add: page_title_def hello_page_def)

text \<open>
  C9. A page titled \<open>Hello\<close> with the single paragraph \<open>World\<close>, a valid identifier
  and a timestamp that converts to a non-zero value is synced by a bot without any record,
  and the messaging service accepts the requests, returning the message \<open>m\<close>. The
  pass sends one \<open>send_message\<close> with the text \<open>*Hello*\n\nWorld\<close> and one pin of
  \<open>m\<close>, and nothing else; the sync database gets one row with the link of \<open>m\<close> and
  the timestamp of the page, and \<open>pinned\<close>, reloaded from it, maps the page to \<open>m\<close>
  and that timestamp.
\<close>

theorem hello_world_scenario:
  fixes tg :: telegram
  assumes "valid_id (normalize_page_id page_id)"
    and "to_timestamp dp edited = Inr t" and "t \<noteq> 0"
    and "tg [] (SendMessage ''*Hello*\<newline>\<newline>World'') = Some m" and "0 < m"
    and "tg [SendMessage ''*Hello*\<newline>\<newline>World''] (PinChatMessage m) = Some ok"
  shows "requests (sync chat dp tg [hello_page page_id edited] fresh)
           = [SendMessage ''*Hello*\<newline>\<newline>World'', PinChatMessage m]
       \<and> unawaited (sync chat dp tg [hello_page page_id edited] fresh) = []
       \<and> db (sync chat dp tg [hello_page page_id edited] fresh)
           = [props_row (''Hello'', notion_url_of (normalize_page_id page_id),
                         tg_url_of chat (Some m), edited)]
       \<and> pinned (sync chat dp tg [hello_page page_id edited] fresh)
           = [(normalize_page_id page_id,
               \<lparr>pin_message_id = Some m, pin_last_edited = edited,
                pin_title = Some ''Hello''\<rparr>)]"
proof -
  let ?p = "hello_page page_id edited"
  let ?k = "normalize_page_id page_id"
  let ?msg = "''*Hello*\<newline>\<newline>World''"
  let ?e = "(''Hello'', notion_url_of ?k, tg_url_of chat (Some m), edited)"
  have pk: "normalize_page_id (pid ?p) = ?k" "last_edited_time ?p = edited"
    by (simp_all add: hello_page_def)
  have null: "to_timestamp dp JNull = Inr 0" by (simp add: to_timestamp_def falsy_def)
  have empty: "\<And>s. pinned s = [] \<Longrightarrow> pinned_last_edited s ?k = JNull"
    "\<And>s. pinned s = [] \<Longrightarrow> pinned_message_id s ?k = None"
    by (simp_all add: pinned_last_edited_def pinned_message_id_def)
  have head: "\<And>s r rest. pinned s = (?k, r) # rest \<Longrightarrow> pinned_message_id s ?k = pin_message_id r"
    by (simp add: pinned_message_id_def)
  have loop: "sync_loop chat dp tg [?p] fresh =
      \<lparr>pinned = [(?k, \<lparr>pin_message_id = Some m, pin_last_edited = edited, pin_title = None\<rparr>)],
       requests = [SendMessage ?msg, PinChatMessage m], unawaited = [], db = [],
       current_page_ids = {?k}, sync_data = [?e]\<rparr>"
    using assms(2-6)
    by (simp add: sync_loop_def sync_page_def Let_def pk hello_title not_skipped_hello
        hello_message create_post_def await_def fresh_def empty null head)
  have rowid: "row_page_id (props_row ?e) = ?k"
    using assms(1) by (simp add: row_page_id_def props_row_def search_hex32_notion_url)
  have rowmsg: "row_message_id (props_row ?e) = Some m"
    using assms(5) by (rule row_message_id_tg_url)
  have ne: "?k \<noteq> []" using assms(1) by (rule valid_id_nonempty)
  have rd: "row_date (props_row ?e) = edited" "row_title_text (props_row ?e) = ''Hello''"
    "\<not> archived (props_row ?e)"
    by (simp_all add: props_row_def row_title_text_def)
  have upd: "update_sync_database [?e] [] = [props_row ?e]"
    by (simp add: update_sync_database_def existing_rows_def query_def upsert_def archive_def
        enumerate_eq_zip)
  have mapping: "get_sync_db_mapping [props_row ?e]
      = [(?k, \<lparr>pin_message_id = Some m, pin_last_edited = edited, pin_title = Some ''Hello''\<rparr>)]"
    using ne by (simp add: get_sync_db_mapping_def query_def rowid rowmsg rd)
  show ?thesis
    by (simp add: sync_def loop cleanup_posts_def Let_def upd mapping)
qed

theorem hello_world_scenario_witness:
  "requests (sync example_chat example_parser tg_up [hello_page id_a (JStr time_new)] fresh)
     = [SendMessage ''*Hello*\<newline>\<newline>World'', PinChatMessage 100]
   \<and> unawaited (sync example_chat example_parser tg_up [hello_page id_a (JStr time_new)] fresh) = []
   \<and> db (sync example_chat example_parser tg_up [hello_page id_a (JStr time_new)] fresh)
     = [props_row (''Hello'', notion_url_of id_a, ''https://t.me/c/1234/100'', JStr time_new)]
   \<and> pinned (sync example_chat example_parser tg_up [hello_page id_a (JStr time_new)] fresh)
     = [(id_a, \<lparr>pin_message_id = Some 100, pin_last_edited = JStr time_new,
                pin_title = Some ''Hello''\<rparr>)]"
proof -
  have n: "normalize_page_id id_a = id_a" by code_simp
  have h1: "valid_id (normalize_page_id id_a)" by code_simp
  have h2: "to_timestamp example_parser (JStr time_new) = Inr 1704153600" by code_simp
  have h3: "(1704153600::int) \<noteq> 0" by simp
  have h4: "tg_up [] (SendMessage ''*Hello*\<newline>\<newline>World'') = Some 100" by code_simp
  have h5: "(0::int) < 100" by simp
  have h6: "tg_up [SendMessage ''*Hello*\<newline>\<newline>World''] (PinChatMessage 100) = Some 101"
    by code_simp
  have u: "tg_url_of example_chat (Some 100) = ''https://t.me/c/1234/100''" by code_simp
  from hello_world_scenario[where tg = tg_up and dp = example_parser and page_id = id_a
      and chat = example_chat, OF h1 h2 h3 h4 h5 h6]
  show ?thesis by (simp add: n u)
qed

section \<open>The sync database keeps the last row of a page\<close>

lemma existing_rows_keyed:
  "existing_rows database = keyed (\<lambda>row_id row. (row_id, row_title_text row)) database"
  by (simp add: existing_rows_def keyed_def)

lemma get_sync_db_mapping_keyed:
  "get_sync_db_mapping database =
     keyed (\<lambda>row_id row. \<lparr>pin_message_id = row_message_id row, pin_last_edited = row_date row,
                            pin_title = Some (row_title_text row)\<rparr>) database"
  by (simp add: get_sync_db_mapping_def keyed_def)

lemma query_snoc:
  "query (database @ [row]) =
     query database @ (if archived row then [] else [(length database, row)])"
  by (simp add: query_def enumerate_append_eq)

lemma keyed_snoc:
  "map_of (keyed f (database @ [row])) k =
     (if \<not> archived row \<and> row_page_id row \<noteq> [] \<and> row_page_id row = k
      then Some (f (length database) row)
      else map_of (keyed f database) k)"
  by (auto simp: keyed_def query_snoc update_conv')

lemma keyed_distinct: "distinct (map fst (keyed f database))"
proof (induction database rule: rev_induct)
  case Nil
  show ?case by (simp add: keyed_def query_def)
next
  case (snoc row database)
  then show ?case
    by (auto simp: keyed_def query_snoc distinct_update)
qed

lemma last_active_snoc:
  "last_active (database @ [row]) k i \<longleftrightarrow>
     (if \<not> archived row \<and> row_page_id row = k then i = length database
      else last_active database k i)"
proof (cases "\<not> archived row \<and> row_page_id row = k")
  case True
  show ?thesis
  proof
    assume la: "last_active (database @ [row]) k i"
    have "\<not> i < length database"
    proof
      assume "i < length database"
      moreover from la have "\<forall>j. i < j \<and> j < length (database @ [row]) \<longrightarrow>
           archived ((database @ [row]) ! j) \<or> row_page_id ((database @ [row]) ! j) \<noteq> k"
        by (simp add: last_active_def)
      ultimately have "archived ((database @ [row]) ! length database)
          \<or> row_page_id ((database @ [row]) ! length database) \<noteq> k"
        by (elim allE[of _ "length database"]) simp
      with True show False by simp
    qed
    with la have "i = length database" by (simp add: last_active_def)
    with True show "if \<not> archived row \<and> row_page_id row = k then i = length database
      else last_active database k i" by simp
  next
    assume "if \<not> archived row \<and> row_page_id row = k then i = length database
      else last_active database k i"
    with True have "i = length database" by simp
    with True show "last_active (database @ [row]) k i" by (auto simp: last_active_def)
  qed
next
  case False
  have "last_active (database @ [row]) k i \<longleftrightarrow> last_active database k i"
  proof
    assume la: "last_active (database @ [row]) k i"
    have "i \<noteq> length database"
    proof
      assume "i = length database"
      with la False show False by (simp add: last_active_def)
    qed
    with la have i: "i < length database" by (simp add: last_active_def)
    with la show "last_active database k i"
      by (auto simp: last_active_def nth_append)
  next
    assume la: "last_active database k i"
    with False show "last_active (database @ [row]) k i"
      by (auto simp: last_active_def nth_append less_Suc_eq)
  qed
  with False show ?thesis by auto
qed

lemma keyed_char:
  "map_of (keyed f database) k = Some v \<longleftrightarrow>
     k \<noteq> [] \<and> (\<exists>i. last_active database k i \<and> v = f i (database ! i))"
proof (induction database rule: rev_induct)
  case Nil
  show ?case by (simp add: keyed_def query_def last_active_def)
next
  case (snoc row database)
  show ?case
  proof (cases "\<not> archived row \<and> row_page_id row = k")
    case True
    then show ?thesis
      using snoc by (auto simp: keyed_snoc last_active_snoc)
  next
    case False
    then have m: "map_of (keyed f (database @ [row])) k = map_of (keyed f database) k"
      by (auto simp: keyed_snoc)
    have lt: "\<And>i. last_active database k i \<Longrightarrow> i < length database"
      by (simp add: last_active_def)
    have la: "\<And>i. last_active (database @ [row]) k i \<longleftrightarrow> last_active database k i"
      using False by (auto simp: last_active_snoc)
    have "(\<exists>i. last_active (database @ [row]) k i \<and> v = f i ((database @ [row]) ! i))
        \<longleftrightarrow> (\<exists>i. last_active database k i \<and> v = f i (database ! i))"
      unfolding la using lt by (metis nth_append)
    with m snoc show ?thesis by simp
  qed
qed

lemma keyed_None:
  assumes "map_of (keyed f database) k = None" and "k \<noteq> []" and "j < length database"
  shows "archived (database ! j) \<or> row_page_id (database ! j) \<noteq> k"
  using assms
proof (induction database rule: rev_induct)
  case Nil
  then show ?case by simp
next
  case (snoc row database)
  then show ?case
    by (cases "j = length database") (auto simp: keyed_snoc nth_append split: if_splits)
qed

lemma existing_Some:
  assumes "map_of (existing_rows db0) k = Some (i, t)"
  shows "k \<noteq> [] \<and> last_active db0 k i"
  using assms unfolding existing_rows_keyed keyed_char by auto

lemma existing_None:
  assumes "map_of (existing_rows db0) k = None" and "k \<noteq> []" and "j < length db0"
  shows "archived (db0 ! j) \<or> row_page_id (db0 ! j) \<noteq> k"
  using assms unfolding existing_rows_keyed by (rule keyed_None)

lemma props_row_page_id [simp]: "row_page_id (props_row e) = data_page_id e"
proof -
  obtain title url tg dt where "e = (title, url, tg, dt)" by (cases e) auto
  then show ?thesis by (simp add: row_page_id_def props_row_def data_page_id_def)
qed

lemma props_row_active [simp]: "\<not> archived (props_row e)"
proof -
  obtain title url tg dt where "e = (title, url, tg, dt)" by (cases e) auto
  then show ?thesis by (simp add: props_row_def)
qed

lemma row_page_id_archived [simp]: "row_page_id (r\<lparr>archived := a\<rparr>) = row_page_id r"
  by (simp add: row_page_id_def)

lemma untouched_refl: "untouched db0 k db0"
  by (simp add: untouched_def)

lemma untouched_append:
  assumes "untouched db0 k d" and "archived r \<or> row_page_id r \<noteq> k"
  shows "untouched db0 k (d @ [r])"
proof -
  from assms(1) have len: "length db0 \<le> length d"
    unfolding untouched_def by blast
  from assms(1) have keep: "\<And>j. j < length d \<Longrightarrow> \<not> archived (d ! j) \<and> row_page_id (d ! j) = k \<Longrightarrow>
        j < length db0 \<and> d ! j = db0 ! j"
    unfolding untouched_def by blast
  from assms(1) have orig: "\<And>j. j < length db0 \<Longrightarrow> \<not> archived (db0 ! j) \<and> row_page_id (db0 ! j) = k \<Longrightarrow>
        d ! j = db0 ! j"
    unfolding untouched_def by blast
  have c1: "length db0 \<le> length (d @ [r])" using len by simp
  have c2: "\<forall>j < length (d @ [r]).
      \<not> archived ((d @ [r]) ! j) \<and> row_page_id ((d @ [r]) ! j) = k \<longrightarrow>
      j < length db0 \<and> (d @ [r]) ! j = db0 ! j"
  proof (intro allI impI)
    fix j assume j: "j < length (d @ [r])"
      and h: "\<not> archived ((d @ [r]) ! j) \<and> row_page_id ((d @ [r]) ! j) = k"
    have "j \<noteq> length d" using h assms(2) by auto
    with j have jl: "j < length d" by simp
    then have eq: "(d @ [r]) ! j = d ! j" by (simp add: nth_append)
    from h have "\<not> archived (d ! j) \<and> row_page_id (d ! j) = k" unfolding eq .
    from keep[OF jl this] show "j < length db0 \<and> (d @ [r]) ! j = db0 ! j"
      by (simp only: eq)
  qed
  have c3: "\<forall>j < length db0. \<not> archived (db0 ! j) \<and> row_page_id (db0 ! j) = k \<longrightarrow>
      (d @ [r]) ! j = db0 ! j"
  proof (intro allI impI)
    fix j assume j: "j < length db0"
      and h: "\<not> archived (db0 ! j) \<and> row_page_id (db0 ! j) = k"
    have eq: "(d @ [r]) ! j = d ! j" using j len by (simp add: nth_append)
    from orig[OF j h] show "(d @ [r]) ! j = db0 ! j" by (simp only: eq)
  qed
  show ?thesis unfolding untouched_def using c1 c2 c3 by blast
qed

lemma untouched_update:
  assumes "untouched db0 k d" and "archived r \<or> row_page_id r \<noteq> k"
    and "i < length db0" and "row_page_id (db0 ! i) \<noteq> k"
  shows "untouched db0 k (d[i := r])"
proof -
  from assms(1) have len: "length db0 \<le> length d"
    unfolding untouched_def by blast
  from assms(1) have keep: "\<And>j. j < length d \<Longrightarrow> \<not> archived (d ! j) \<and> row_page_id (d ! j) = k \<Longrightarrow>
        j < length db0 \<and> d ! j = db0 ! j"
    unfolding untouched_def by blast
  from assms(1) have orig: "\<And>j. j < length db0 \<Longrightarrow> \<not> archived (db0 ! j) \<and> row_page_id (db0 ! j) = k \<Longrightarrow>
        d ! j = db0 ! j"
    unfolding untouched_def by blast
  have c1: "length db0 \<le> length (d[i := r])" using len by simp
  have c2: "\<forall>j < length (d[i := r]).
      \<not> archived (d[i := r] ! j) \<and> row_page_id (d[i := r] ! j) = k \<longrightarrow>
      j < length db0 \<and> d[i := r] ! j = db0 ! j"
  proof (intro allI impI)
    fix j assume j: "j < length (d[i := r])"
      and h: "\<not> archived (d[i := r] ! j) \<and> row_page_id (d[i := r] ! j) = k"
    have ne: "j \<noteq> i"
    proof
      assume "j = i"
      then have "d[i := r] ! j = r" using j by simp
      with h assms(2) show False by simp
    qed
    then have eq: "d[i := r] ! j = d ! j" by simp
    from h have h': "\<not> archived (d ! j) \<and> row_page_id (d ! j) = k" unfolding eq .
    from j have "j < length d" by simp
    from keep[OF this h'] show "j < length db0 \<and> d[i := r] ! j = db0 ! j"
      by (simp only: eq)
  qed
  have c3: "\<forall>j < length db0. \<not> archived (db0 ! j) \<and> row_page_id (db0 ! j) = k \<longrightarrow>
      d[i := r] ! j = db0 ! j"
  proof (intro allI impI)
    fix j assume j: "j < length db0"
      and h: "\<not> archived (db0 ! j) \<and> row_page_id (db0 ! j) = k"
    have "j \<noteq> i" using h assms(4) by auto
    then have eq: "d[i := r] ! j = d ! j" by simp
    from orig[OF j h] show "d[i := r] ! j = db0 ! j" by (simp only: eq)
  qed
  show ?thesis unfolding untouched_def using c1 c2 c3 by blast
qed

lemma untouched_upsert:
  assumes "untouched db0 k d" and "data_page_id e \<noteq> k"
  shows "untouched db0 k (upsert (existing_rows db0) d e)"
proof (cases "map_of (existing_rows db0) (data_page_id e)")
  case None
  then have u: "upsert (existing_rows db0) d e = d @ [props_row e]"
    by (simp add: upsert_def)
  show ?thesis
    unfolding u using untouched_append[OF assms(1), of "props_row e"] assms(2) by simp
next
  case (Some v)
  obtain i t where v: "v = (i, t)" by (cases v)
  from Some v existing_Some have la: "last_active db0 (data_page_id e) i" by blast
  then have i: "i < length db0" and ki: "row_page_id (db0 ! i) = data_page_id e"
    by (simp_all add: last_active_def)
  have u: "upsert (existing_rows db0) d e
      = d[i := (props_row e)\<lparr>archived := archived (d ! i)\<rparr>]"
    using Some v by (simp add: upsert_def)
  show ?thesis
    unfolding u
    using untouched_update[OF assms(1) _ i, of "(props_row e)\<lparr>archived := archived (d ! i)\<rparr>"]
      assms(2) ki by simp
qed

lemma untouched_foldl:
  assumes "untouched db0 k d" and "\<forall>e \<in> set D. data_page_id e \<noteq> k"
  shows "untouched db0 k (foldl (upsert (existing_rows db0)) d D)"
  using assms
proof (induction D arbitrary: d)
  case Nil
  then show ?case by simp
next
  case (Cons e D)
  then show ?case using untouched_upsert[of db0 k d e] by simp
qed

lemma upsert_establishes:
  assumes "untouched db0 k d" and "data_page_id e = k" and "k \<noteq> []"
  shows "\<exists>i. settled_row db0 k (props_row e) (upsert (existing_rows db0) d e) i"
proof (cases "map_of (existing_rows db0) (data_page_id e)")
  case None
  then have u: "upsert (existing_rows db0) d e = d @ [props_row e]"
    by (simp add: upsert_def)
  have no0: "\<And>j. j < length db0 \<Longrightarrow> archived (db0 ! j) \<or> row_page_id (db0 ! j) \<noteq> k"
    using existing_None[OF None[unfolded assms(2)] assms(3)] .
  have "last_active (d @ [props_row e]) k (length d)"
    using assms(2) by (simp add: last_active_snoc)
  moreover have "length db0 \<le> length d" using assms(1) unfolding untouched_def by blast
  ultimately have "settled_row db0 k (props_row e) (d @ [props_row e]) (length d)"
    by (simp add: settled_row_def)
  then show ?thesis unfolding u by blast
next
  case (Some v)
  obtain i t where v: "v = (i, t)" by (cases v)
  from Some v existing_Some assms(2) have la: "last_active db0 k i" by blast
  then have i: "i < length db0" and ki: "row_page_id (db0 ! i) = k"
    and ai: "\<not> archived (db0 ! i)"
    and later: "\<And>j. i < j \<Longrightarrow> j < length db0 \<Longrightarrow>
        archived (db0 ! j) \<or> row_page_id (db0 ! j) \<noteq> k"
    by (simp_all add: last_active_def)
  from assms(1) i ki ai have same: "d ! i = db0 ! i" and len: "length db0 \<le> length d"
    unfolding untouched_def by blast+
  have keep: "\<And>j. j < length d \<Longrightarrow> \<not> archived (d ! j) \<Longrightarrow> row_page_id (d ! j) = k \<Longrightarrow>
      j < length db0 \<and> d ! j = db0 ! j"
    using assms(1) unfolding untouched_def by blast
  have arch: "(props_row e)\<lparr>archived := archived (d ! i)\<rparr> = props_row e"
    using same ai by (cases e) (simp add: props_row_def)
  have u: "upsert (existing_rows db0) d e = d[i := props_row e]"
    using Some v arch by (simp add: upsert_def)
  have "last_active (d[i := props_row e]) k i"
    unfolding last_active_def
  proof (intro conjI allI impI)
    show "i < length (d[i := props_row e])" using i len by simp
    show "\<not> archived (d[i := props_row e] ! i)" using i len by simp
    show "row_page_id (d[i := props_row e] ! i) = k" using i len assms(2) by simp
    fix j assume j: "i < j \<and> j < length (d[i := props_row e])"
    then have dj: "d[i := props_row e] ! j = d ! j" by simp
    show "archived (d[i := props_row e] ! j) \<or> row_page_id (d[i := props_row e] ! j) \<noteq> k"
    proof (rule ccontr)
      assume "\<not> ?thesis"
      then have a: "\<not> archived (d ! j)" and b: "row_page_id (d ! j) = k"
        unfolding dj by simp_all
      from keep[OF _ a b] j have "j < length db0" and "d ! j = db0 ! j" by simp_all
      with a b later[of j] j show False by auto
    qed
  qed
  then have "settled_row db0 k (props_row e) (d[i := props_row e]) i"
    using i len ki by (simp add: settled_row_def)
  then show ?thesis unfolding u by blast
qed

lemma last_active_update_other:
  assumes "last_active d k i" and "i' \<noteq> i" and "archived r \<or> row_page_id r \<noteq> k"
  shows "last_active (d[i' := r]) k i"
  unfolding last_active_def
proof (intro conjI allI impI)
  from assms(1) have i: "i < length d" and a: "\<not> archived (d ! i)"
    and k: "row_page_id (d ! i) = k"
    and later: "\<And>j. i < j \<Longrightarrow> j < length d \<Longrightarrow> archived (d ! j) \<or> row_page_id (d ! j) \<noteq> k"
    by (simp_all add: last_active_def)
  have same: "d[i' := r] ! i = d ! i" using assms(2) by simp
  show "i < length (d[i' := r])" using i by simp
  show "\<not> archived (d[i' := r] ! i)" using a same by simp
  show "row_page_id (d[i' := r] ! i) = k" using k same by simp
  fix j assume j: "i < j \<and> j < length (d[i' := r])"
  show "archived (d[i' := r] ! j) \<or> row_page_id (d[i' := r] ! j) \<noteq> k"
  proof (cases "j = i'")
    case True
    then have "d[i' := r] ! j = r" using j by simp
    then show ?thesis using assms(3) by simp
  next
    case False
    then have "d[i' := r] ! j = d ! j" by simp
    then show ?thesis using later[of j] j by simp
  qed
qed

lemma settled_update_other:
  assumes "settled_row db0 k R d i" and "i' \<noteq> i" and "archived r \<or> row_page_id r \<noteq> k"
  shows "settled_row db0 k R (d[i' := r]) i"
proof -
  from assms(1) have la: "last_active d k i" and R: "d ! i = R"
    and len: "length db0 \<le> length d" and o: "i < length db0 \<longrightarrow> row_page_id (db0 ! i) = k"
    by (simp_all add: settled_row_def)
  have "d[i' := r] ! i = R" using R assms(2) by simp
  with last_active_update_other[OF la assms(2,3)] len o
  show ?thesis by (simp add: settled_row_def)
qed

lemma settled_upsert:
  assumes "settled_row db0 k R d i" and "data_page_id e \<noteq> k"
  shows "settled_row db0 k R (upsert (existing_rows db0) d e) i"
proof (cases "map_of (existing_rows db0) (data_page_id e)")
  case None
  then have u: "upsert (existing_rows db0) d e = d @ [props_row e]"
    by (simp add: upsert_def)
  have "i < length d" using assms(1) by (simp add: settled_row_def last_active_def)
  then show ?thesis
    unfolding u using assms
    by (auto simp: settled_row_def last_active_snoc nth_append)
next
  case (Some v)
  obtain i' t where v: "v = (i', t)" by (cases v)
  from Some v existing_Some have la: "last_active db0 (data_page_id e) i'" by blast
  then have i': "i' < length db0" and ki: "row_page_id (db0 ! i') = data_page_id e"
    by (simp_all add: last_active_def)
  have ne: "i' \<noteq> i" using assms i' ki by (auto simp: settled_row_def)
  have u: "upsert (existing_rows db0) d e
      = d[i' := (props_row e)\<lparr>archived := archived (d ! i')\<rparr>]"
    using Some v by (simp add: upsert_def)
  show ?thesis
    unfolding u using settled_update_other[OF assms(1) ne] assms(2) by simp
qed

lemma settled_foldl:
  assumes "settled_row db0 k R d i" and "\<forall>e \<in> set D. data_page_id e \<noteq> k"
  shows "settled_row db0 k R (foldl (upsert (existing_rows db0)) d D) i"
  using assms
proof (induction D arbitrary: d)
  case Nil
  then show ?case by simp
next
  case (Cons e D)
  then show ?case using settled_upsert[of db0 k R d i e] by simp
qed

lemma settled_archive_step:
  assumes "settled_row db0 k R d i" and "map_of (existing_rows db0) k' = Some (i', t)"
    and "k' \<noteq> k"
  shows "settled_row db0 k R (d[i' := (d ! i')\<lparr>archived := True\<rparr>]) i"
proof -
  from assms(2) existing_Some have la: "last_active db0 k' i'" by blast
  then have i': "i' < length db0" and ki: "row_page_id (db0 ! i') = k'"
    by (simp_all add: last_active_def)
  have ne: "i' \<noteq> i" using assms i' ki by (auto simp: settled_row_def)
  show ?thesis
    using settled_update_other[OF assms(1) ne] by simp
qed

lemma settled_archive_loop:
  assumes "settled_row db0 k R d i" and "k \<in> data_page_id ` set D"
    and "\<forall>(k', v) \<in> set es. map_of (existing_rows db0) k' = Some v"
  shows "settled_row db0 k R
     (foldl (\<lambda>d (page_id, row_id, title).
               if page_id \<notin> data_page_id ` set D
               then d[row_id := (d ! row_id)\<lparr>archived := True\<rparr>]
               else d) d es) i"
  using assms
proof (induction es arbitrary: d)
  case Nil
  then show ?case by simp
next
  case (Cons x es)
  obtain k' i' t where x: "x = (k', i', t)" by (cases x)
  have m: "map_of (existing_rows db0) k' = Some (i', t)" using Cons.prems(3) x by simp
  show ?case
  proof (cases "k' \<notin> data_page_id ` set D")
    case True
    then have "k' \<noteq> k" using Cons.prems(2) by auto
    from settled_archive_step[OF Cons.prems(1) m this]
    show ?thesis using Cons.IH Cons.prems True x by simp
  next
    case False
    then show ?thesis using Cons.IH Cons.prems x by simp
  qed
qed

lemma existing_entries:
  "\<forall>(k', v) \<in> set (existing_rows db0). map_of (existing_rows db0) k' = Some v"
  using keyed_distinct[of "\<lambda>row_id row. (row_id, row_title_text row)" db0]
  unfolding existing_rows_keyed by auto

lemma store_round_trip:
  assumes "distinct (map data_page_id D)" and "e \<in> set D" and "data_page_id e \<noteq> []"
  shows "map_of (get_sync_db_mapping (update_sync_database D db0)) (data_page_id e)
     = Some \<lparr>pin_message_id = row_message_id (props_row e),
             pin_last_edited = row_date (props_row e),
             pin_title = Some (row_title_text (props_row e))\<rparr>"
proof -
  let ?k = "data_page_id e"
  let ?E = "existing_rows db0"
  from assms(2) obtain D1 D2 where D: "D = D1 @ e # D2" by (auto dest: split_list)
  from assms(1) D have "?k \<notin> data_page_id ` set D1" and "?k \<notin> data_page_id ` set D2"
    by simp_all
  then have k1: "\<forall>e' \<in> set D1. data_page_id e' \<noteq> ?k"
    and k2: "\<forall>e' \<in> set D2. data_page_id e' \<noteq> ?k" by (metis imageI)+
  have "untouched db0 ?k (foldl (upsert ?E) db0 D1)"
    using untouched_foldl[OF untouched_refl k1] .
  from upsert_establishes[OF this refl assms(3)]
  obtain i where "settled_row db0 ?k (props_row e)
      (upsert ?E (foldl (upsert ?E) db0 D1) e) i" by blast
  from settled_foldl[OF this k2]
  have "settled_row db0 ?k (props_row e) (foldl (upsert ?E) db0 D) i"
    by (simp add: D)
  from settled_archive_loop[OF this _ existing_entries, of D]
  have "settled_row db0 ?k (props_row e) (archive D ?E (foldl (upsert ?E) db0 D)) i"
    using assms(2) by (simp add: archive_def)
  moreover from assms(2) have "D \<noteq> []" by auto
  ultimately have s: "settled_row db0 ?k (props_row e) (update_sync_database D db0) i"
    by (simp add: update_sync_database_def Let_def)
  show ?thesis
    unfolding get_sync_db_mapping_keyed keyed_char
    using s assms(3) by (auto simp: settled_row_def)
qed

section \<open>A second pass sends nothing\<close>

lemma create_post_frame:
  "sync_data (create_post tg k msg edited s) = sync_data s"
  "db (create_post tg k msg edited s) = db s"
  "unawaited (create_post tg k msg edited s) = unawaited s"
  "k' \<noteq> k \<Longrightarrow> map_of (pinned (create_post tg k msg edited s)) k' = map_of (pinned s) k'"
  by (simp_all add: create_post_def await_def update_conv' split: option.splits)

lemma edit_post_frame:
  "sync_data (edit_post tg k n msg edited s) = sync_data s"
  "db (edit_post tg k n msg edited s) = db s"
  "unawaited (edit_post tg k n msg edited s) = unawaited s"
  "k' \<noteq> k \<Longrightarrow> map_of (pinned (edit_post tg k n msg edited s)) k' = map_of (pinned s) k'"
  by (simp_all add: edit_post_def await_def create_post_frame update_conv' split: option.splits)

lemma sync_page_frame:
  "db (sync_page chat dp tg p s) = db s"
  "unawaited (sync_page chat dp tg p s) = unawaited s"
  "k' \<noteq> normalize_page_id (pid p) \<Longrightarrow>
     map_of (pinned (sync_page chat dp tg p s)) k' = map_of (pinned s) k'"
  by (simp_all add: sync_page_def Let_def create_post_frame edit_post_frame
      split: sum.splits option.splits)

lemma sync_page_inert:
  assumes "inert dp p"
  shows "sync_page chat dp tg p s
     = s\<lparr>current_page_ids := insert (normalize_page_id (pid p)) (current_page_ids s)\<rparr>"
  using assms
  by (auto simp: inert_def sync_page_def Let_def split: sum.splits)

lemma sync_page_entry:
  assumes "\<not> inert dp p"
    and "to_timestamp dp (pinned_last_edited s (normalize_page_id (pid p))) = Inr n"
  shows "\<exists>title url. sync_data (sync_page chat dp tg p s)
     = sync_data s @ [(title, notion_url_of (normalize_page_id (pid p)), url, last_edited_time p)]"
  using assms
  by (auto simp: inert_def sync_page_def Let_def create_post_frame edit_post_frame
      split: sum.splits option.splits)

lemma pinned_last_edited_cong:
  "map_of (pinned s') k = map_of (pinned s) k \<Longrightarrow> pinned_last_edited s' k = pinned_last_edited s k"
  by (simp add: pinned_last_edited_def)

lemma sync_loop_entries:
  assumes "distinct (map (\<lambda>p. normalize_page_id (pid p)) qs)"
    and "\<forall>p \<in> set qs. \<exists>n. to_timestamp dp (pinned_last_edited s (normalize_page_id (pid p))) = Inr n"
  shows "map entry_key (sync_data (foldl (\<lambda>s p. sync_page chat dp tg p s) s qs))
       = map entry_key (sync_data s) @ map page_key (filter (\<lambda>p. \<not> inert dp p) qs)
     \<and> db (foldl (\<lambda>s p. sync_page chat dp tg p s) s qs) = db s"
  using assms
proof (induction qs arbitrary: s)
  case Nil
  then show ?case by simp
next
  case (Cons q qs)
  let ?s = "sync_page chat dp tg q s"
  have d: "distinct (map (\<lambda>p. normalize_page_id (pid p)) qs)" using Cons.prems(1) by simp
  have t: "\<forall>p \<in> set qs. \<exists>n. to_timestamp dp (pinned_last_edited ?s (normalize_page_id (pid p))) = Inr n"
  proof
    fix p assume p: "p \<in> set qs"
    have "normalize_page_id (pid q) \<notin> (\<lambda>p. normalize_page_id (pid p)) ` set qs"
      using Cons.prems(1) by simp
    with p have "normalize_page_id (pid p) \<noteq> normalize_page_id (pid q)"
      by (metis imageI)
    then have "pinned_last_edited ?s (normalize_page_id (pid p))
        = pinned_last_edited s (normalize_page_id (pid p))"
      by (intro pinned_last_edited_cong sync_page_frame(3))
    then show "\<exists>n. to_timestamp dp (pinned_last_edited ?s (normalize_page_id (pid p))) = Inr n"
      using Cons.prems(2) p by simp
  qed
  from Cons.IH[OF d t]
  have ih: "map entry_key (sync_data (foldl (\<lambda>s p. sync_page chat dp tg p s) ?s qs))
       = map entry_key (sync_data ?s) @ map page_key (filter (\<lambda>p. \<not> inert dp p) qs)"
    and ihdb: "db (foldl (\<lambda>s p. sync_page chat dp tg p s) ?s qs) = db ?s"
    by simp_all
  have step: "map entry_key (sync_data ?s)
      = map entry_key (sync_data s) @ (if inert dp q then [] else [page_key q])"
  proof (cases "inert dp q")
    case True
    then show ?thesis by (simp add: sync_page_inert)
  next
    case False
    from Cons.prems(2) obtain n where
      "to_timestamp dp (pinned_last_edited s (normalize_page_id (pid q))) = Inr n" by auto
    from sync_page_entry[OF False this, of chat tg] obtain title url where
      "sync_data ?s = sync_data s
         @ [(title, notion_url_of (normalize_page_id (pid q)), url, last_edited_time q)]"
      by blast
    then show ?thesis using False by (simp add: entry_key_def page_key_def)
  qed
  show ?case
    using ih ihdb step by (simp add: sync_page_frame)
qed

lemma cleanup_loop_frame:
  "requests (cleanup_loop keys ids s) = requests s
   \<and> sync_data (cleanup_loop keys ids s) = sync_data s
   \<and> db (cleanup_loop keys ids s) = db s"
  by (induction keys arbitrary: s) (simp_all split: option.splits)

lemma cleanup_posts_frame:
  "requests (cleanup_posts ids s) = requests s"
  "sync_data (cleanup_posts ids s) = sync_data s"
  "db (cleanup_posts ids s) = db s"
  by (simp_all add: cleanup_posts_def cleanup_loop_frame)

lemma sync_page_quiet:
  assumes "quiet dp (pinned s) p"
  shows "requests (sync_page chat dp tg p s) = requests s
     \<and> pinned (sync_page chat dp tg p s) = pinned s"
proof (cases "inert dp p")
  case True
  then show ?thesis by (simp add: sync_page_inert)
next
  case False
  with assms have "to_timestamp dp (last_edited_time p)
      = to_timestamp dp (pinned_last_edited s (normalize_page_id (pid p)))"
    by (simp add: quiet_def pinned_last_edited_def)
  then show ?thesis using sync_page_unchanged(1,2) by blast
qed

lemma sync_loop_quiet:
  assumes "\<forall>p \<in> set qs. quiet dp (pinned s) p"
  shows "requests (foldl (\<lambda>s p. sync_page chat dp tg p s) s qs) = requests s
     \<and> pinned (foldl (\<lambda>s p. sync_page chat dp tg p s) s qs) = pinned s"
  using assms
proof (induction qs arbitrary: s)
  case Nil
  then show ?case by simp
next
  case (Cons q qs)
  from Cons.prems have q: "quiet dp (pinned s) q" by simp
  from sync_page_quiet[OF q, of chat tg]
  have r: "requests (sync_page chat dp tg q s) = requests s"
    and m: "pinned (sync_page chat dp tg q s) = pinned s" by simp_all
  from Cons.prems m have "\<forall>p \<in> set qs. quiet dp (pinned (sync_page chat dp tg q s)) p" by simp
  from Cons.IH[OF this] r m show ?case by simp
qed

lemma sync_quiet:
  assumes "\<forall>p \<in> set pages. quiet dp (pinned s) p"
  shows "requests (sync chat dp tg pages s) = requests s"
proof -
  let ?s0 = "s\<lparr>current_page_ids := {}, sync_data := []\<rparr>"
  have "\<forall>p \<in> set pages. quiet dp (pinned ?s0) p" using assms by simp
  from sync_loop_quiet[OF this, of chat tg]
  have "requests (sync_loop chat dp tg pages s) = requests s"
    by (simp add: sync_loop_def)
  then show ?thesis
    by (simp add: sync_def Let_def cleanup_posts_frame)
qed

lemma data_page_id_entry_key: "data_page_id e = url_page_id (entry_key e)"
proof -
  obtain title url tg dt where "e = (title, url, tg, dt)" by (cases e) auto
  then show ?thesis by (simp add: data_page_id_def url_page_id_def entry_key_def)
qed

lemma row_date_entry_key: "row_date (props_row e) = snd (entry_key e)"
proof -
  obtain title url tg dt where "e = (title, url, tg, dt)" by (cases e) auto
  then show ?thesis by (simp add: props_row_def entry_key_def)
qed

lemma url_page_id_page_key:
  "valid_id (normalize_page_id (pid p)) \<Longrightarrow> url_page_id (page_key p) = normalize_page_id (pid p)"
  by (simp add: url_page_id_def page_key_def search_hex32_notion_url)

lemma sync_loop_distinct:
  assumes d: "distinct (map (\<lambda>p. normalize_page_id (pid p)) pages)"
    and v: "\<forall>p \<in> set pages. valid_id (normalize_page_id (pid p))"
    and t: "\<forall>p \<in> set pages.
        \<exists>n. to_timestamp dp (pinned_last_edited s (normalize_page_id (pid p))) = Inr n"
  shows "distinct (map data_page_id (sync_data (sync_loop chat dp tg pages s)))"
    and "map entry_key (sync_data (sync_loop chat dp tg pages s))
           = map page_key (filter (\<lambda>p. \<not> inert dp p) pages)"
    and "db (sync_loop chat dp tg pages s) = db s"
proof -
  let ?s0 = "s\<lparr>current_page_ids := {}, sync_data := []\<rparr>"
  let ?D = "sync_data (sync_loop chat dp tg pages s)"
  let ?live = "filter (\<lambda>p. \<not> inert dp p) pages"
  have t0: "\<forall>p \<in> set pages.
      \<exists>n. to_timestamp dp (pinned_last_edited ?s0 (normalize_page_id (pid p))) = Inr n"
    using t by (simp add: pinned_last_edited_def)
  from sync_loop_entries[OF d t0, of chat tg]
  show keys: "map entry_key ?D = map page_key ?live"
    and "db (sync_loop chat dp tg pages s) = db s"
    by (simp_all add: sync_loop_def)
  have "map data_page_id ?D = map url_page_id (map entry_key ?D)"
    by (simp add: data_page_id_entry_key)
  also have "\<dots> = map (\<lambda>p. url_page_id (page_key p)) ?live"
    unfolding keys by simp
  also have "\<dots> = map (\<lambda>p. normalize_page_id (pid p)) ?live"
    using v by (intro map_cong refl) (simp add: url_page_id_page_key)
  finally have ids: "map data_page_id ?D = map (\<lambda>p. normalize_page_id (pid p)) ?live" .
  show "distinct (map data_page_id ?D)"
    unfolding ids using d by (rule distinct_map_filter)
qed

lemma reloaded_pass_quiet:
  assumes d: "distinct (map (\<lambda>p. normalize_page_id (pid p)) pages)"
    and v: "\<forall>p \<in> set pages. valid_id (normalize_page_id (pid p))"
    and t: "\<forall>p \<in> set pages.
        \<exists>n. to_timestamp dp (pinned_last_edited s (normalize_page_id (pid p))) = Inr n"
  shows "\<forall>p \<in> set pages. quiet dp (pinned (sync chat dp tg pages s)) p"
proof
  fix p assume p: "p \<in> set pages"
  let ?s1 = "sync_loop chat dp tg pages s"
  let ?D = "sync_data ?s1"
  let ?live = "filter (\<lambda>p. \<not> inert dp p) pages"
  note dist = sync_loop_distinct(1)[OF d v t, of chat tg]
  note keys = sync_loop_distinct(2)[OF d v t, of chat tg]
  note db1 = sync_loop_distinct(3)[OF d v t, of chat tg]
  show "quiet dp (pinned (sync chat dp tg pages s)) p"
  proof (cases "inert dp p")
    case True
    then show ?thesis by (simp add: quiet_def)
  next
    case False
    with p have "page_key p \<in> set (map page_key ?live)" by simp
    then have "page_key p \<in> set (map entry_key ?D)" unfolding keys .
    then obtain e where e: "e \<in> set ?D" and ek: "entry_key e = page_key p" by auto
    then have ne: "?D \<noteq> []" by auto
    have k: "data_page_id e = normalize_page_id (pid p)"
      using v p by (simp add: data_page_id_entry_key ek url_page_id_page_key)
    then have kne: "data_page_id e \<noteq> []" using v p valid_id_nonempty by auto
    have pin: "pinned (sync chat dp tg pages s)
        = get_sync_db_mapping (update_sync_database ?D (db s))"
      using ne by (simp add: sync_def Let_def cleanup_posts_frame db1)
    have "map_of (pinned (sync chat dp tg pages s)) (normalize_page_id (pid p))
        = Some \<lparr>pin_message_id = row_message_id (props_row e),
                pin_last_edited = last_edited_time p,
                pin_title = Some (row_title_text (props_row e))\<rparr>"
      using store_round_trip[OF dist e kne, of "db s"]
      by (simp add: pin k row_date_entry_key ek page_key_def)
    then show ?thesis by (simp add: quiet_def)
  qed
qed

lemma sync_page_grows: "\<exists>extra. sync_data (sync_page chat dp tg p s) = sync_data s @ extra"
  by (simp add: sync_page_def Let_def create_post_frame edit_post_frame
      split: sum.splits option.splits)

lemma sync_loop_grows:
  "set (sync_data s) \<subseteq> set (sync_data (foldl (\<lambda>s p. sync_page chat dp tg p s) s qs))"
proof (induction qs arbitrary: s)
  case Nil
  show ?case by simp
next
  case (Cons q qs)
  obtain extra where "sync_data (sync_page chat dp tg q s) = sync_data s @ extra"
    using sync_page_grows by blast
  then have "set (sync_data s) \<subseteq> set (sync_data (sync_page chat dp tg q s))" by simp
  with Cons[of "sync_page chat dp tg q s"] show ?case by auto
qed

lemma pinned_message_id_cong:
  "map_of (pinned s') k = map_of (pinned s) k \<Longrightarrow> pinned_message_id s' k = pinned_message_id s k"
  by (simp add: pinned_message_id_def)

lemma sync_page_carries:
  assumes "page_title p = Inr title" and "\<not> skipped_title title"
    and "to_timestamp dp (last_edited_time p) = Inr t"
    and "to_timestamp dp (pinned_last_edited s (normalize_page_id (pid p))) = Inr t"
  shows "sync_data (sync_page chat dp tg p s)
     = sync_data s @ [(title, notion_url_of (normalize_page_id (pid p)),
                       tg_url_of chat (pinned_message_id s (normalize_page_id (pid p))),
                       last_edited_time p)]"
  using assms by (simp add: sync_page_def Let_def)

lemma sync_loop_carries:
  assumes "distinct (map (\<lambda>p. normalize_page_id (pid p)) qs)" and "p \<in> set qs"
    and "page_title p = Inr title" and "\<not> skipped_title title"
    and "to_timestamp dp (last_edited_time p) = Inr t"
    and "to_timestamp dp (pinned_last_edited s (normalize_page_id (pid p))) = Inr t"
  shows "(title, notion_url_of (normalize_page_id (pid p)),
          tg_url_of chat (pinned_message_id s (normalize_page_id (pid p))), last_edited_time p)
     \<in> set (sync_data (foldl (\<lambda>s p. sync_page chat dp tg p s) s qs))"
  using assms(1,2,6)
proof (induction qs arbitrary: s)
  case Nil
  then show ?case by simp
next
  case (Cons q qs)
  let ?k = "normalize_page_id (pid p)"
  let ?s = "sync_page chat dp tg q s"
  show ?case
  proof (cases "q = p")
    case True
    from sync_page_carries[OF assms(3,4,5) Cons.prems(3), of chat tg]
    have "(title, notion_url_of ?k, tg_url_of chat (pinned_message_id s ?k), last_edited_time p)
        \<in> set (sync_data (sync_page chat dp tg p s))" by simp
    with sync_loop_grows[of "sync_page chat dp tg p s" chat dp tg qs] True
    show ?thesis by auto
  next
    case False
    with Cons.prems(2) have p: "p \<in> set qs" by simp
    have "normalize_page_id (pid q) \<notin> (\<lambda>p. normalize_page_id (pid p)) ` set qs"
      using Cons.prems(1) by simp
    with p have ne: "?k \<noteq> normalize_page_id (pid q)" by (metis imageI)
    have m: "map_of (pinned ?s) ?k = map_of (pinned s) ?k"
      using ne by (rule sync_page_frame(3))
    have d: "distinct (map (\<lambda>p. normalize_page_id (pid p)) qs)" using Cons.prems(1) by simp
    have t: "to_timestamp dp (pinned_last_edited ?s ?k) = Inr t"
      using Cons.prems(3) pinned_last_edited_cong[OF m] by simp
    from Cons.IH[OF d p t] show ?thesis
      by (simp add: pinned_message_id_cong[OF m])
  qed
qed

lemma row_message_id_carried:
  assumes "mid = None \<or> (\<exists>n. mid = Some n \<and> 0 < n)"
  shows "row_message_id (props_row (title, url, tg_url_of chat mid, dt)) = mid"
proof (cases mid)
  case None
  then show ?thesis by (simp add: row_message_id_def props_row_def tg_url_of_def)
next
  case (Some n)
  with assms have "0 < n" by simp
  with Some show ?thesis by (simp add: row_message_id_tg_url)
qed

lemma unchanged_page_entry_kept:
  assumes d: "distinct (map (\<lambda>p. normalize_page_id (pid p)) pages)"
    and v: "\<forall>p \<in> set pages. valid_id (normalize_page_id (pid p))"
    and t: "\<forall>p \<in> set pages.
        \<exists>n. to_timestamp dp (pinned_last_edited s (normalize_page_id (pid p))) = Inr n"
    and p: "p \<in> set pages"
    and title: "page_title p = Inr title" "\<not> skipped_title title"
    and ts: "to_timestamp dp (last_edited_time p) = Inr n"
      "to_timestamp dp (pinned_last_edited s (normalize_page_id (pid p))) = Inr n"
    and mid: "pinned_message_id s (normalize_page_id (pid p)) = None
      \<or> (\<exists>m. pinned_message_id s (normalize_page_id (pid p)) = Some m \<and> 0 < m)"
  shows "map_of (pinned (sync chat dp tg pages s)) (normalize_page_id (pid p))
       = Some \<lparr>pin_message_id = pinned_message_id s (normalize_page_id (pid p)),
               pin_last_edited = last_edited_time p, pin_title = Some title\<rparr>
     \<and> pinned_message_id (sync chat dp tg pages s) (normalize_page_id (pid p))
       = pinned_message_id s (normalize_page_id (pid p))
     \<and> pinned_last_edited (sync chat dp tg pages s) (normalize_page_id (pid p))
       = last_edited_time p"
proof -
  let ?k = "normalize_page_id (pid p)"
  let ?s0 = "s\<lparr>current_page_ids := {}, sync_data := []\<rparr>"
  let ?s1 = "sync_loop chat dp tg pages s"
  let ?D = "sync_data ?s1"
  let ?e = "(title, notion_url_of ?k, tg_url_of chat (pinned_message_id s ?k), last_edited_time p)"
  note dist = sync_loop_distinct(1)[OF d v t, of chat tg]
  note db1 = sync_loop_distinct(3)[OF d v t, of chat tg]
  have ts0: "to_timestamp dp (pinned_last_edited ?s0 ?k) = Inr n"
    using ts(2) by (simp add: pinned_last_edited_def)
  from sync_loop_carries[OF d p title ts(1) ts0, of chat tg]
  have e: "?e \<in> set ?D" by (simp add: sync_loop_def pinned_message_id_def)
  then have ne: "?D \<noteq> []" by auto
  have pin: "pinned (sync chat dp tg pages s)
      = get_sync_db_mapping (update_sync_database ?D (db s))"
    using ne by (simp add: sync_def Let_def cleanup_posts_frame db1)
  have k: "data_page_id ?e = ?k"
    using v p by (simp add: data_page_id_notion_url)
  have kne: "data_page_id ?e \<noteq> []" using k v p valid_id_nonempty by auto
  have "map_of (pinned (sync chat dp tg pages s)) ?k
      = Some \<lparr>pin_message_id = pinned_message_id s ?k,
              pin_last_edited = last_edited_time p,
              pin_title = Some title\<rparr>"
    using store_round_trip[OF dist e kne, of "db s"] row_message_id_carried[OF mid]
    by (simp add: pin k row_date_entry_key entry_key_def row_title_text_def props_row_def)
  then show ?thesis by (simp add: pinned_message_id_def pinned_last_edited_def)
qed

text \<open>
  C2, as stated, fails for the entry of a page the loop leaves out and in the writing of
  the timestamp. Page \<open>id_a\<close> has a record and an equal timestamp; when its title starts
  with \<open>[DRAFT]\<close>, or when it has no title, one pass removes its entry from \<open>pinned\<close>.
  Page \<open>id_b\<close> is processed and its timestamp equals the stored one in value but not in
  writing; one pass replaces the stored writing by that of the page.
\<close>

theorem unchanged_page_entry_not_kept:
  "to_timestamp example_parser (last_edited_time (page_of id_a ''[DRAFT] Plan'' time_old))
     = to_timestamp example_parser (pinned_last_edited synced_two id_a)
   \<and> map_of (pinned synced_two) id_a = Some (pin_of 7 time_old ''Plan'')
   \<and> map_of (pinned (sync example_chat example_parser tg_up pages_draft synced_two)) id_a = None
   \<and> to_timestamp example_parser (last_edited_time untitled_page)
     = to_timestamp example_parser (pinned_last_edited synced_two id_a)
   \<and> map_of (pinned (sync example_chat example_parser tg_up pages_untitled synced_two)) id_a = None
   \<and> to_timestamp lenient_parser (last_edited_time (page_of id_b ''Notes'' time_old))
     = to_timestamp lenient_parser (pinned_last_edited synced_short id_b)
   \<and> map_of (pinned synced_short) id_b = Some (pin_of 8 time_old_short ''Notes'')
   \<and> map_of (pinned (sync example_chat lenient_parser tg_up pages_unchanged synced_short)) id_b
     = Some (pin_of 8 time_old ''Notes'')
   \<and> pin_of 8 time_old ''Notes'' \<noteq> pin_of 8 time_old_short ''Notes''"
  by code_simp

text \<open>
  C2. When the timestamp of a page converts to the same value as the timestamp stored for
  it, the step of the pass for that page sends no request and leaves \<open>pinned\<close> as it is.
  For pages with distinct valid identifiers and stored timestamps that convert: a second
  pass over the same pages sends no request, whatever the messaging service did in the
  first pass; and after a pass the entry of such an unchanged page whose title is read and
  has no exclusion prefix, reloaded from the sync database, holds the same message
  identifier (absent or positive), the timestamp of the page, which converts to the same
  value as the stored one, and the title of the page.
\<close>

theorem unchanged_page_no_calls:
  "(to_timestamp dp (last_edited_time p)
      = to_timestamp dp (pinned_last_edited s (normalize_page_id (pid p))) \<longrightarrow>
      requests (sync_page chat dp tg p s) = requests s
      \<and> pinned (sync_page chat dp tg p s) = pinned s)
   \<and> (distinct (map (\<lambda>p. normalize_page_id (pid p)) pages)
       \<and> (\<forall>p \<in> set pages. valid_id (normalize_page_id (pid p)))
       \<and> (\<forall>p \<in> set pages.
            \<exists>n. to_timestamp dp (pinned_last_edited s (normalize_page_id (pid p))) = Inr n) \<longrightarrow>
      requests (sync chat dp tg2 pages (sync chat dp tg pages s))
        = requests (sync chat dp tg pages s)
      \<and> (q \<in> set pages \<and> page_title q = Inr title \<and> \<not> skipped_title title
           \<and> to_timestamp dp (last_edited_time q) = Inr n
           \<and> to_timestamp dp (pinned_last_edited s (normalize_page_id (pid q))) = Inr n
           \<and> (pinned_message_id s (normalize_page_id (pid q)) = None
               \<or> (\<exists>m. pinned_message_id s (normalize_page_id (pid q)) = Some m \<and> 0 < m)) \<longrightarrow>
           map_of (pinned (sync chat dp tg pages s)) (normalize_page_id (pid q))
             = Some \<lparr>pin_message_id = pinned_message_id s (normalize_page_id (pid q)),
                     pin_last_edited = last_edited_time q, pin_title = Some title\<rparr>
           \<and> pinned_message_id (sync chat dp tg pages s) (normalize_page_id (pid q))
             = pinned_message_id s (normalize_page_id (pid q))
           \<and> to_timestamp dp
                (pinned_last_edited (sync chat dp tg pages s) (normalize_page_id (pid q)))
             = to_timestamp dp (pinned_last_edited s (normalize_page_id (pid q)))))"
proof (intro conjI impI)
  assume "to_timestamp dp (last_edited_time p)
      = to_timestamp dp (pinned_last_edited s (normalize_page_id (pid p)))"
  then show "requests (sync_page chat dp tg p s) = requests s"
    and "pinned (sync_page chat dp tg p s) = pinned s"
    by (rule sync_page_unchanged)+
next
  assume h: "distinct (map (\<lambda>p. normalize_page_id (pid p)) pages)
       \<and> (\<forall>p \<in> set pages. valid_id (normalize_page_id (pid p)))
       \<and> (\<forall>p \<in> set pages.
            \<exists>n. to_timestamp dp (pinned_last_edited s (normalize_page_id (pid p))) = Inr n)"
  then have "\<forall>p \<in> set pages. quiet dp (pinned (sync chat dp tg pages s)) p"
    using reloaded_pass_quiet by blast
  then show "requests (sync chat dp tg2 pages (sync chat dp tg pages s))
        = requests (sync chat dp tg pages s)"
    by (rule sync_quiet)
next
  assume h: "distinct (map (\<lambda>p. normalize_page_id (pid p)) pages)
       \<and> (\<forall>p \<in> set pages. valid_id (normalize_page_id (pid p)))
       \<and> (\<forall>p \<in> set pages.
            \<exists>n. to_timestamp dp (pinned_last_edited s (normalize_page_id (pid p))) = Inr n)"
    and g: "q \<in> set pages \<and> page_title q = Inr title \<and> \<not> skipped_title title
           \<and> to_timestamp dp (last_edited_time q) = Inr n
           \<and> to_timestamp dp (pinned_last_edited s (normalize_page_id (pid q))) = Inr n
           \<and> (pinned_message_id s (normalize_page_id (pid q)) = None
               \<or> (\<exists>m. pinned_message_id s (normalize_page_id (pid q)) = Some m \<and> 0 < m))"
  from h have d: "distinct (map (\<lambda>p. normalize_page_id (pid p)) pages)"
    and v: "\<forall>p \<in> set pages. valid_id (normalize_page_id (pid p))"
    and t: "\<forall>p \<in> set pages.
        \<exists>n. to_timestamp dp (pinned_last_edited s (normalize_page_id (pid p))) = Inr n"
    by blast+
  from g have g1: "q \<in> set pages" and g2: "page_title q = Inr title"
    and g3: "\<not> skipped_title title" and g4: "to_timestamp dp (last_edited_time q) = Inr n"
    and g5: "to_timestamp dp (pinned_last_edited s (normalize_page_id (pid q))) = Inr n"
    and g6: "pinned_message_id s (normalize_page_id (pid q)) = None
      \<or> (\<exists>m. pinned_message_id s (normalize_page_id (pid q)) = Some m \<and> 0 < m)"
    by blast+
  from unchanged_page_entry_kept[OF d v t g1 g2 g3 g4 g5 g6, of chat tg]
  show "map_of (pinned (sync chat dp tg pages s)) (normalize_page_id (pid q))
      = Some \<lparr>pin_message_id = pinned_message_id s (normalize_page_id (pid q)),
              pin_last_edited = last_edited_time q, pin_title = Some title\<rparr>"
    and "pinned_message_id (sync chat dp tg pages s) (normalize_page_id (pid q))
      = pinned_message_id s (normalize_page_id (pid q))"
    and "to_timestamp dp
          (pinned_last_edited (sync chat dp tg pages s) (normalize_page_id (pid q)))
      = to_timestamp dp (pinned_last_edited s (normalize_page_id (pid q)))"
    using g4 g5 by simp_all
qed

theorem unchanged_page_no_calls_witness:
  "requests (sync_page example_chat example_parser tg_up (page_of id_b ''Notes'' time_old)
      synced_two) = []
   \<and> pinned (sync_page example_chat example_parser tg_up (page_of id_b ''Notes'' time_old)
      synced_two) = pinned synced_two
   \<and> requests (sync example_chat example_parser tg_up pages_both
        (sync example_chat example_parser tg_up pages_both synced_two))
     = [EditMessageText 7 ''*Plan*\<newline>\<newline>World'', PinChatMessage 7]
   \<and> map_of (pinned (sync example_chat example_parser tg_up pages_both synced_two)) id_b
     = Some \<lparr>pin_message_id = Some 8, pin_last_edited = JStr time_old,
             pin_title = Some ''Notes''\<rparr>
   \<and> pinned_message_id (sync example_chat example_parser tg_up pages_both synced_two) id_b
     = Some 8
   \<and> to_timestamp example_parser
        (pinned_last_edited (sync example_chat example_parser tg_up pages_both synced_two) id_b)
     = Inr 1704067200"
proof -
  have n: "normalize_page_id (pid (page_of id_a ''Plan'' time_new)) = id_a"
    "normalize_page_id (pid (page_of id_b ''Notes'' time_old)) = id_b" by code_simp+
  have h1: "to_timestamp example_parser (last_edited_time (page_of id_b ''Notes'' time_old))
      = to_timestamp example_parser (pinned_last_edited synced_two
          (normalize_page_id (pid (page_of id_b ''Notes'' time_old))))" by code_simp
  have ta: "to_timestamp example_parser (pinned_last_edited synced_two id_a) = Inr 1704067200"
    and tb: "to_timestamp example_parser (pinned_last_edited synced_two id_b) = Inr 1704067200"
    by code_simp+
  have h2: "distinct (map (\<lambda>p. normalize_page_id (pid p)) pages_both)" by code_simp
  have h3: "\<forall>p \<in> set pages_both. valid_id (normalize_page_id (pid p))" by code_simp
  have h4: "\<forall>p \<in> set pages_both. \<exists>n. to_timestamp example_parser
      (pinned_last_edited synced_two (normalize_page_id (pid p))) = Inr n"
    by (simp add: pages_both_def n ta tb)
  have g1: "page_of id_b ''Notes'' time_old \<in> set pages_both" by (simp add: pages_both_def)
  have g2: "page_title (page_of id_b ''Notes'' time_old) = Inr ''Notes''" by code_simp
  have g3: "\<not> skipped_title ''Notes''" by code_simp
  have g4: "to_timestamp example_parser (last_edited_time (page_of id_b ''Notes'' time_old))
      = Inr 1704067200" by code_simp
  have g6: "pinned_message_id synced_two id_b = Some 8" by code_simp
  have le: "last_edited_time (page_of id_b ''Notes'' time_old) = JStr time_old"
    by (simp add: page_of_def)
  have r0: "requests synced_two = []" by code_simp
  have r1: "requests (sync example_chat example_parser tg_up pages_both synced_two)
      = [EditMessageText 7 ''*Plan*\<newline>\<newline>World'', PinChatMessage 7]" by code_simp
  from unchanged_page_no_calls[where dp = example_parser and s = synced_two
      and p = "page_of id_b ''Notes'' time_old" and pages = pages_both and chat = example_chat
      and tg = tg_up and ?tg2.0 = tg_up and q = "page_of id_b ''Notes'' time_old"
      and title = "''Notes''" and n = 1704067200]
    h1 h2 h3 h4 g1 g2 g3 g4
  show ?thesis by (simp add: r0 r1 n tb g6 le)
qed

end
